theory Spec2Isabelle
  imports Complex_Main "HOL-Library.Char_ord" "HOL-Library.List_Lexorder"
begin

section \<open>Text\<close>

text \<open>
  Python strings are sequences of code points. A text is modelled as a \<open>string\<close> whose
  characters are the code points below 256, so the character classes below are the ones
  Python uses on that range: \<open>str.isspace\<close> (also the class \<open>\s\<close> of \<open>re\<close>), the
  decimal digits of \<open>\d\<close>, the word characters of \<open>\w\<close> and \<open>str.lower\<close>.
\<close>

definition code :: "char \<Rightarrow> nat" where
  "code c = of_char c"

definition is_space :: "char \<Rightarrow> bool" where
  "is_space c = (code c \<in> set [9, 10, 11, 12, 13, 28, 29, 30, 31, 32, 133, 160])"

definition is_digit :: "char \<Rightarrow> bool" where
  "is_digit c = (48 \<le> code c \<and> code c \<le> 57)"

definition is_upper_AZ :: "char \<Rightarrow> bool" where
  "is_upper_AZ c = (65 \<le> code c \<and> code c \<le> 90)"

definition is_upper_AI :: "char \<Rightarrow> bool" where
  "is_upper_AI c = (65 \<le> code c \<and> code c \<le> 73)"

definition is_word :: "char \<Rightarrow> bool" where
  "is_word c = (let n = code c in
     (48 \<le> n \<and> n \<le> 57) \<or> (65 \<le> n \<and> n \<le> 90) \<or> n = 95 \<or> (97 \<le> n \<and> n \<le> 122) \<or>
     n = 170 \<or> n = 178 \<or> n = 179 \<or> n = 181 \<or> n = 185 \<or> n = 186 \<or>
     (188 \<le> n \<and> n \<le> 190) \<or> (192 \<le> n \<and> n \<le> 214) \<or> (216 \<le> n \<and> n \<le> 246) \<or>
     (248 \<le> n \<and> n \<le> 255))"

definition lower_char :: "char \<Rightarrow> char" where
  "lower_char c = (let n = code c in
     if (65 \<le> n \<and> n \<le> 90) \<or> (192 \<le> n \<and> n \<le> 214) \<or> (216 \<le> n \<and> n \<le> 222)
     then char_of (n + 32) else c)"

definition lower :: "string \<Rightarrow> string" where
  "lower s = map lower_char s"

definition strip :: "string \<Rightarrow> string" where
  "strip s = rev (dropWhile is_space (rev (dropWhile is_space s)))"

text \<open>\<open>s.split(c)\<close> for a one-character separator: never an empty list.\<close>

fun split_on :: "char \<Rightarrow> string \<Rightarrow> string list" where
  "split_on c [] = [[]]"
| "split_on c (x # xs) =
     (if x = c then [] # split_on c xs
      else (case split_on c xs of [] \<Rightarrow> [[x]] | w # ws \<Rightarrow> (x # w) # ws))"

definition split_lines :: "string \<Rightarrow> string list" where
  "split_lines s = split_on (CHR 0x0A) s"

fun startswith :: "string \<Rightarrow> string \<Rightarrow> bool" where
  "startswith s [] = True"
| "startswith [] (p # ps) = False"
| "startswith (x # xs) (p # ps) = (x = p \<and> startswith xs ps)"

text \<open>\<open>contains sub s\<close> is Python's \<open>sub in s\<close>.\<close>

fun contains :: "string \<Rightarrow> string \<Rightarrow> bool" where
  "contains sub [] = (sub = [])"
| "contains sub (x # xs) = (startswith (x # xs) sub \<or> contains sub xs)"

section \<open>data_parser: question type and options\<close>

datatype question_type = standard | nonstandard_telecom | nonstandard_other

definition is_standard_question :: "string \<Rightarrow> bool" where
  "is_standard_question question = contains ''Timestamp|Longitude|Latitude|GPS Speed'' question"

definition is_nonstandard_telecom_question :: "string \<Rightarrow> bool" where
  "is_nonstandard_telecom_question question =
     (let has_telecom_data = (contains ''Drive Test Data'' question \<or>
                              contains ''Serving RSRP'' question \<or>
                              contains ''Throughput'' question \<or>
                              contains ''Parameter Data'' question);
          is_standard = is_standard_question question
      in has_telecom_data \<and> \<not> is_standard)"

definition get_question_type :: "string \<Rightarrow> question_type" where
  "get_question_type question =
     (if is_standard_question question then standard
      else if is_nonstandard_telecom_question question then nonstandard_telecom
      else nonstandard_other)"

text \<open>The tail \<open>\s*:\<close> shared by the three option patterns of \<open>extract_options_from_question\<close>.\<close>

definition spaces_colon :: "string \<Rightarrow> bool" where
  "spaces_colon r = (case dropWhile is_space r of [] \<Rightarrow> False | c # _ \<Rightarrow> c = CHR '':'')"

text \<open>\<open>re.match(r'^([A-Z])(\d+)\s*:', line)\<close>, giving group 1 followed by group 2.\<close>

definition match_prefix_option :: "string \<Rightarrow> string option" where
  "match_prefix_option line =
     (case line of [] \<Rightarrow> None
      | c # rest \<Rightarrow>
          if is_upper_AZ c \<and> takeWhile is_digit rest \<noteq> [] \<and> spaces_colon (dropWhile is_digit rest)
          then Some (c # takeWhile is_digit rest) else None)"

text \<open>\<open>re.match(r'^(\d+)\s*:', line)\<close>, giving group 1.\<close>

definition match_num_option :: "string \<Rightarrow> string option" where
  "match_num_option line =
     (if takeWhile is_digit line \<noteq> [] \<and> spaces_colon (dropWhile is_digit line)
      then Some (takeWhile is_digit line) else None)"

text \<open>\<open>re.match(r'^([A-I])\s*:', line)\<close>, giving group 1.\<close>

definition match_letter_option :: "string \<Rightarrow> string option" where
  "match_letter_option line =
     (case line of [] \<Rightarrow> None
      | c # rest \<Rightarrow> if is_upper_AI c \<and> spaces_colon rest then Some [c] else None)"

text \<open>
  The loop \<open>for opt in xs: if opt not in seen: seen.add(opt); options.append(opt)\<close>:
  the first occurrence of each element, in order.
\<close>

fun first_occurrences :: "string list \<Rightarrow> string list \<Rightarrow> string list" where
  "first_occurrences seen [] = []"
| "first_occurrences seen (x # xs) =
     (if x \<in> set seen then first_occurrences seen xs
      else x # first_occurrences (x # seen) xs)"

text \<open>The fixed fallback: the one-character strings 1 to 8.\<close>

definition default_option_list :: "string list" where
  "default_option_list = map (\<lambda>c. [c]) ''12345678''"

definition extract_options_from_question :: "string \<Rightarrow> string list" where
  "extract_options_from_question question =
     (let lines = map strip (split_lines question);
          prefix_options = List.map_filter match_prefix_option lines;
          num_options = List.map_filter match_num_option lines;
          letter_options = List.map_filter match_letter_option lines
      in if prefix_options \<noteq> [] then first_occurrences [] prefix_options
         else if num_options \<noteq> [] then first_occurrences [] num_options
         else if letter_options \<noteq> [] then sort (remdups letter_options)
         else default_option_list)"

section \<open>rule_engine: the standard procedure\<close>

text \<open>
  The cause types are the keys of \<open>ROOT_CAUSE_KEYWORDS\<close> and \<open>NONSTANDARD_KEYWORDS\<close>
  (\<open>prompts.py\<close>); \<open>overlap\<close> is a key of both tables.
\<close>

datatype cause =
    neighbor_higher | overshoot | overlap | pci_conflict | low_rb | weak_coverage
  | high_speed | handover
  | overlap_rf | inter_freq_threshold | capacity | transport_anomaly | uplink_issue
  | neighbor_missing | weak_coverage_rf | threshold_high | threshold_low | pdcch

datatype confidence = high | low | none_confidence

text \<open>
  The feature dictionary of \<open>extract_features\<close>. A key may be missing from a dictionary,
  so every field is optional; floats are modelled as reals. \<open>other_keys\<close> lists the keys
  of the dictionary that are none of the ten the rules read.
\<close>

record features =
  min_rsrp :: "real option"
  avg_rsrp :: "real option"
  max_tilt :: "real option"
  min_tilt :: "real option"
  total_tilt :: "real option"
  handovers :: "int option"
  num_neighbors :: "int option"
  max_speed :: "real option"
  avg_rb :: "real option"
  has_pci_conflict :: "bool option"
  other_keys :: "string list"

text \<open>\<open>d.get(key, default)\<close> on an optional field.\<close>

definition get_default :: "'a option \<Rightarrow> 'a \<Rightarrow> 'a" where
  "get_default v d = (case v of None \<Rightarrow> d | Some x \<Rightarrow> x)"

text \<open>\<open>if features:\<close> holds for a dictionary with at least one key.\<close>

definition features_nonempty :: "features \<Rightarrow> bool" where
  "features_nonempty f =
     (min_rsrp f \<noteq> None \<or> avg_rsrp f \<noteq> None \<or> max_tilt f \<noteq> None \<or> min_tilt f \<noteq> None \<or>
      total_tilt f \<noteq> None \<or> handovers f \<noteq> None \<or> num_neighbors f \<noteq> None \<or>
      max_speed f \<noteq> None \<or> avg_rb f \<noteq> None \<or> has_pci_conflict f \<noteq> None \<or>
      other_keys f \<noteq> [])"

text \<open>
  The ordered cascade of \<open>solve_standard_question_with_confidence\<close>. The rationale text
  \<open>rule_desc\<close> is represented by the number of the rule it names (0 for "Default C3").
\<close>

definition standard_cascade :: "features \<Rightarrow> cause \<times> confidence \<times> nat" where
  "standard_cascade f =
     (let num_neighbors' = get_default (num_neighbors f) 0;
          handovers' = get_default (handovers f) 0;
          max_speed' = get_default (max_speed f) 0;
          avg_rb' = get_default (avg_rb f) 200;
          min_rsrp' = get_default (min_rsrp f) (- 80);
          max_tilt' = get_default (max_tilt f) 0;
          min_tilt' = get_default (min_tilt f) 0;
          total_tilt' = get_default (total_tilt f) 0;
          has_pci_conflict' = get_default (has_pci_conflict f) False
      in if num_neighbors' \<ge> 3 then (overlap, high, 1)
         else if handovers' \<ge> 3 then (handover, high, 2)
         else if handovers' = 2 then (overshoot, high, 3)
         else if max_speed' > 40 then (high_speed, high, 4)
         else if avg_rb' < 170 then (low_rb, high, 5)
         else if has_pci_conflict' then (pci_conflict, high, 6)
         else if max_tilt' < 12 then (neighbor_higher, high, 7)
         else if total_tilt' < 19 then (neighbor_higher, high, 8)
         else if min_tilt' < 6 then (neighbor_higher, high, 9)
         else if min_tilt' < 10 \<and> min_rsrp' > - 89 then (neighbor_higher, high, 10)
         else if min_rsrp' < - 90 then (weak_coverage, high, 11)
         else if max_tilt' > 29 then (weak_coverage, high, 12)
         else if total_tilt' > 52 then (weak_coverage, high, 13)
         else if min_tilt' > 25 then (weak_coverage, high, 14)
         else if min_rsrp' < - 88.5 \<and> total_tilt' > 39 \<and> max_tilt' \<ge> 22 then (weak_coverage, low, 15)
         else if min_tilt' < 10 \<or> total_tilt' \<le> 35 then (neighbor_higher, low, 16)
         else (neighbor_higher, low, 17))"

definition backup_mappings :: "cause \<Rightarrow> cause list" where
  "backup_mappings c =
     (if c = neighbor_higher then [overlap, neighbor_higher]
      else if c = overlap then [neighbor_higher, overlap]
      else [])"

text \<open>Python's \<open>not answer\<close> for a value that is \<open>None\<close> or a string.\<close>

definition falsy :: "string option \<Rightarrow> bool" where
  "falsy a = (a = None \<or> a = Some [])"

definition standard_answer :: "cause \<Rightarrow> (cause \<rightharpoonup> string) \<Rightarrow> string list \<Rightarrow> string" where
  "standard_answer cause_type option_mapping default_options =
     (case option_mapping cause_type of
        Some a \<Rightarrow> a
      | None \<Rightarrow>
          (let answer = (case find (\<lambda>backup. option_mapping backup \<noteq> None) (backup_mappings cause_type) of
                           None \<Rightarrow> None
                         | Some backup \<Rightarrow> option_mapping backup)
           in if falsy answer \<and> default_options \<noteq> []
              then default_options ! (min 2 (length default_options - 1))
              else if falsy answer then ''3''
              else get_default answer []))"

definition solve_standard_question_with_confidence ::
  "features option \<Rightarrow> (cause \<rightharpoonup> string) \<Rightarrow> string list \<Rightarrow> string \<times> confidence \<times> cause \<times> nat" where
  "solve_standard_question_with_confidence features option_mapping default_options =
     (let (cause_type, confidence, rule_desc) =
            (case features of
               None \<Rightarrow> (neighbor_higher, low, 0)
             | Some f \<Rightarrow> if features_nonempty f then standard_cascade f else (neighbor_higher, low, 0))
      in (standard_answer cause_type option_mapping default_options, confidence, cause_type, rule_desc))"

section \<open>case_library: similarity\<close>

text \<open>
  A feature snapshot is a dictionary from attribute names to a number or \<open>None\<close>, kept as
  an association list; \<open>snapshot_get\<close> is \<open>d.get(key)\<close>, which is \<open>None\<close> both for a
  missing key and for a key bound to \<open>None\<close>. Numbers are modelled as reals.
\<close>

type_synonym snapshot = "(string \<times> real option) list"

definition snapshot_get :: "snapshot \<Rightarrow> string \<Rightarrow> real option" where
  "snapshot_get d key = (case map_of d key of None \<Rightarrow> None | Some v \<Rightarrow> v)"

definition weights :: "(string \<times> real) list" where
  "weights = [(''min_rsrp'', 2.0), (''max_tilt'', 2.0), (''total_tilt'', 1.5),
              (''handovers'', 1.5), (''max_speed'', 1.0), (''avg_rb'', 1.0),
              (''num_neighbors'', 1.0)]"

definition normalizers :: "(string \<times> real) list" where
  "normalizers = [(''min_rsrp'', 30.0), (''max_tilt'', 20.0), (''total_tilt'', 50.0),
                  (''handovers'', 5.0), (''max_speed'', 50.0), (''avg_rb'', 100.0),
                  (''num_neighbors'', 5.0)]"

definition normalizer :: "string \<Rightarrow> real" where
  "normalizer key = (case map_of normalizers key of None \<Rightarrow> 1.0 | Some v \<Rightarrow> v)"

text \<open>One attribute's term \<open>max(0, 1 - abs(v1 - v2) / normalizers.get(key, 1.0))\<close>.\<close>

definition attribute_sim :: "string \<Rightarrow> real \<Rightarrow> real \<Rightarrow> real" where
  "attribute_sim key v1 v2 = max 0 (1 - \<bar>v1 - v2\<bar> / normalizer key)"

text \<open>The body of the loop over \<open>weights.items()\<close>, on the pair (similarity, total_weight).\<close>

definition similarity_step :: "snapshot \<Rightarrow> snapshot \<Rightarrow> string \<times> real \<Rightarrow> real \<times> real \<Rightarrow> real \<times> real" where
  "similarity_step features1 features2 kw acc =
     (case (snapshot_get features1 (fst kw), snapshot_get features2 (fst kw)) of
        (Some v1, Some v2) \<Rightarrow>
          (fst acc + snd kw * attribute_sim (fst kw) v1 v2, snd acc + snd kw)
      | _ \<Rightarrow> acc)"

text \<open>\<open>not features\<close>: the argument is \<open>None\<close> or the empty dictionary.\<close>

definition no_snapshot :: "snapshot option \<Rightarrow> bool" where
  "no_snapshot d = (d = None \<or> d = Some [])"

definition compute_similarity :: "snapshot option \<Rightarrow> snapshot option \<Rightarrow> real" where
  "compute_similarity features1 features2 =
     (if no_snapshot features1 \<or> no_snapshot features2 then 0.0
      else (let acc = fold (similarity_step (get_default features1 []) (get_default features2 []))
                           weights (0, 0)
            in if snd acc > 0 then fst acc / snd acc else 0.0))"

text \<open>An attribute is shared when both snapshots have a value for it.\<close>

definition shared :: "snapshot option \<Rightarrow> snapshot option \<Rightarrow> string \<times> real \<Rightarrow> bool" where
  "shared features1 features2 kw =
     (snapshot_get (get_default features1 []) (fst kw) \<noteq> None \<and>
      snapshot_get (get_default features2 []) (fst kw) \<noteq> None)"

definition shared_attributes :: "snapshot option \<Rightarrow> snapshot option \<Rightarrow> (string \<times> real) list" where
  "shared_attributes features1 features2 = filter (shared features1 features2) weights"

text \<open>The weighted term of one attribute, for the snapshots' values of it.\<close>

definition weighted_term :: "snapshot option \<Rightarrow> snapshot option \<Rightarrow> string \<times> real \<Rightarrow> real" where
  "weighted_term features1 features2 kw =
     (case (snapshot_get (get_default features1 []) (fst kw),
            snapshot_get (get_default features2 []) (fst kw)) of
        (Some v1, Some v2) \<Rightarrow> snd kw * attribute_sim (fst kw) v1 v2
      | _ \<Rightarrow> 0)"

section \<open>ai_client: answer extraction\<close>

text \<open>
  \<open>re.search(pattern, text)\<close>: the anchored matcher \<open>m\<close> is tried at every position of the
  text from the left, the end of the text included, and the first success is the match.
\<close>

fun re_search :: "(string \<Rightarrow> 'a option) \<Rightarrow> string \<Rightarrow> 'a option" where
  "re_search m [] = m []"
| "re_search m (x # xs) = (case m (x # xs) of Some g \<Rightarrow> Some g | None \<Rightarrow> re_search m xs)"

text \<open>
  A literal under \<open>re.IGNORECASE\<close>: the text after the literal when the text starts with
  it up to the case of letters.
\<close>

fun ci_literal :: "string \<Rightarrow> string \<Rightarrow> string option" where
  "ci_literal [] s = Some s"
| "ci_literal (p # ps) [] = None"
| "ci_literal (p # ps) (x # xs) = (if lower_char x = lower_char p then ci_literal ps xs else None)"

text \<open>The classes \<open>[A-Z]\<close> and \<open>[A-I]\<close> under \<open>re.IGNORECASE\<close>.\<close>

definition ci_AZ :: "char \<Rightarrow> bool" where
  "ci_AZ c = (is_upper_AZ c \<or> (97 \<le> code c \<and> code c \<le> 122))"

definition ci_AI :: "char \<Rightarrow> bool" where
  "ci_AI c = (is_upper_AI c \<or> (97 \<le> code c \<and> code c \<le> 105))"

definition colon_or_space :: "char \<Rightarrow> bool" where
  "colon_or_space c = (c = CHR '':'' \<or> is_space c)"

text \<open>The group \<open>([^}]+)\}\<close> that follows \<open>boxed\{\<close>.\<close>

definition braces_group :: "string \<Rightarrow> string option" where
  "braces_group r =
     (if takeWhile (\<lambda>c. c \<noteq> CHR ''}'') r \<noteq> [] \<and> dropWhile (\<lambda>c. c \<noteq> CHR ''}'') r \<noteq> []
      then Some (takeWhile (\<lambda>c. c \<noteq> CHR ''}'') r) else None)"

text \<open>The group \<open>([A-Z]?\d+|[A-I])\<close> under \<open>re.IGNORECASE\<close>.\<close>

definition option_group :: "string \<Rightarrow> string option" where
  "option_group s =
     (case s of [] \<Rightarrow> None
      | c # rest \<Rightarrow>
          if ci_AZ c \<and> takeWhile is_digit rest \<noteq> [] then Some (c # takeWhile is_digit rest)
          else if is_digit c then Some (takeWhile is_digit s)
          else if ci_AI c then Some [c]
          else None)"

text \<open>The group \<open>([A-I])\<close> under \<open>re.IGNORECASE\<close>.\<close>

definition letter_group :: "string \<Rightarrow> string option" where
  "letter_group s = (case s of [] \<Rightarrow> None | c # rest \<Rightarrow> if ci_AI c then Some [c] else None)"

text \<open>A pattern \<open>literal[:\s]*(group)\<close>, anchored.\<close>

definition tagged :: "string \<Rightarrow> (string \<Rightarrow> string option) \<Rightarrow> string \<Rightarrow> string option" where
  "tagged literal grp s =
     (case ci_literal literal s of None \<Rightarrow> None | Some r \<Rightarrow> grp (dropWhile colon_or_space r))"

text \<open>The list \<open>patterns\<close> of \<open>extract_ai_answer\<close>, each giving its group 1.\<close>

definition patterns :: "(string \<Rightarrow> string option) list" where
  "patterns =
     [\<lambda>s. case ci_literal (CHR 0x5C # ''boxed{'') s of None \<Rightarrow> None | Some r \<Rightarrow> braces_group r,
      \<lambda>s. case ci_literal ''boxed{'' s of None \<Rightarrow> None | Some r \<Rightarrow> braces_group r,
      tagged ''Final Answer'' option_group,
      tagged ''The answer is'' option_group,
      tagged ''Answer'' letter_group,
      tagged ''Option'' letter_group]"

text \<open>What one matched pattern returns, if anything: the body of \<open>if match:\<close>.\<close>

definition match_answer :: "string list \<Rightarrow> string \<Rightarrow> string option" where
  "match_answer valid_options g =
     (let ans = strip g
      in if ans \<in> set valid_options then Some ans
         else find (\<lambda>opt. contains ans opt \<or> contains opt ans) valid_options)"

fun pattern_stage :: "(string \<Rightarrow> string option) list \<Rightarrow> string \<Rightarrow> string list \<Rightarrow> string option" where
  "pattern_stage [] response_text valid_options = None"
| "pattern_stage (pattern # rest) response_text valid_options =
     (case re_search pattern response_text of
        None \<Rightarrow> pattern_stage rest response_text valid_options
      | Some g \<Rightarrow>
          (case match_answer valid_options g of
             Some a \<Rightarrow> Some a
           | None \<Rightarrow> pattern_stage rest response_text valid_options))"

definition first_line_stage :: "string \<Rightarrow> string list \<Rightarrow> string option" where
  "first_line_stage response_text valid_options =
     (let first_line = strip (case split_lines response_text of [] \<Rightarrow> [] | l # _ \<Rightarrow> l)
      in find (\<lambda>opt. startswith first_line opt) valid_options)"

text \<open>
  \<open>\b\<close> between the character before a position and the character at it, where a
  missing character (start or end of the text) is not a word character.
\<close>

definition word_boundary :: "char option \<Rightarrow> char option \<Rightarrow> bool" where
  "word_boundary prev nxt =
     ((case prev of None \<Rightarrow> False | Some c \<Rightarrow> is_word c) \<noteq>
      (case nxt of None \<Rightarrow> False | Some c \<Rightarrow> is_word c))"

definition head_option :: "string \<Rightarrow> char option" where
  "head_option s = (case s of [] \<Rightarrow> None | c # _ \<Rightarrow> Some c)"

text \<open>The pattern \<open>\b opt \b\<close> anchored at a position whose previous character is \<open>prev\<close>.\<close>

definition bounded_at :: "char option \<Rightarrow> string \<Rightarrow> string \<Rightarrow> bool" where
  "bounded_at prev opt s =
     (word_boundary prev (head_option s) \<and> startswith s opt \<and>
      word_boundary (if opt = [] then prev else Some (last opt)) (head_option (drop (length opt) s)))"

fun bounded_search :: "char option \<Rightarrow> string \<Rightarrow> string \<Rightarrow> bool" where
  "bounded_search prev opt [] = bounded_at prev opt []"
| "bounded_search prev opt (x # xs) = (bounded_at prev opt (x # xs) \<or> bounded_search (Some x) opt xs)"

definition full_text_stage :: "string \<Rightarrow> string list \<Rightarrow> string option" where
  "full_text_stage response_text valid_options =
     find (\<lambda>opt. bounded_search None opt response_text) valid_options"

definition first_valid :: "string list \<Rightarrow> string" where
  "first_valid valid_options = (case valid_options of [] \<Rightarrow> ''1'' | opt # _ \<Rightarrow> opt)"

definition extract_ai_answer :: "string \<Rightarrow> string list \<Rightarrow> string" where
  "extract_ai_answer response_text valid_options =
     (if response_text = [] then first_valid valid_options
      else (let response_text' = strip response_text
            in if response_text' \<in> set valid_options then response_text'
               else (case pattern_stage patterns response_text' valid_options of
                       Some a \<Rightarrow> a
                     | None \<Rightarrow>
                   (case first_line_stage response_text' valid_options of
                       Some a \<Rightarrow> a
                     | None \<Rightarrow>
                   (case full_text_stage response_text' valid_options of
                       Some a \<Rightarrow> a
                     | None \<Rightarrow> first_valid valid_options)))))"

section \<open>ai_client: the call loop\<close>

text \<open>
  What one request to the remote service ends in, as \<open>call_ai_api\<close> tells the cases
  apart: status 200 with the message content of the body (a string, or \<open>None\<close> for a
  null content), status 429, a status of 500 or more, any other status, a timeout, a
  connection error, or another exception with its message (an undecodable body of a 200
  reply raises one too).
\<close>

datatype api_outcome =
    Status200 "string option"
  | Status429
  | Status5xx
  | StatusOther
  | TimeoutError
  | ConnectionError
  | OtherError string

definition retryable_errors :: "string list" where
  "retryable_errors =
     [''SSL'', ''SSLError'', ''UNEXPECTED_EOF'', ''EOF occurred'',
      ''ConnectionReset'', ''ConnectionError'', ''Timeout'',
      ''Response ended prematurely'', ''Max retries exceeded'',
      ''RemoteDisconnected'', ''ChunkedEncodingError'']"

text \<open>The seconds slept after a failed attempt (attempts count from 0).\<close>

definition wait_time :: "api_outcome \<Rightarrow> nat \<Rightarrow> nat" where
  "wait_time outcome attempt =
     (case outcome of
        Status200 _ \<Rightarrow> 0
      | Status429 \<Rightarrow> 15 * (attempt + 1)
      | Status5xx \<Rightarrow> 10 * (attempt + 1)
      | StatusOther \<Rightarrow> 5
      | TimeoutError \<Rightarrow> 8 * (attempt + 1)
      | ConnectionError \<Rightarrow> 12 * (attempt + 1)
      | OtherError error_str \<Rightarrow>
          if list_ex (\<lambda>err. contains err error_str) retryable_errors
          then 10 * (attempt + 1) else 5)"

record api_run =
  run_response :: "string option"
  run_success :: bool
  run_requests :: nat
  run_sleeps :: "nat list"

text \<open>
  The loop \<open>for attempt in range(max_retries)\<close>, from attempt \<open>attempt\<close> with
  \<open>remaining\<close> attempts left. The service is a function from the attempt number to the
  outcome of that request; the run records the requests made and the pauses slept.
\<close>

fun call_ai_api_from :: "(nat \<Rightarrow> api_outcome) \<Rightarrow> nat \<Rightarrow> nat \<Rightarrow> api_run" where
  "call_ai_api_from service attempt 0 =
     \<lparr>run_response = None, run_success = False, run_requests = 0, run_sleeps = []\<rparr>"
| "call_ai_api_from service attempt (Suc remaining) =
     (case service attempt of
        Status200 content \<Rightarrow>
          \<lparr>run_response = content, run_success = True, run_requests = 1, run_sleeps = []\<rparr>
      | outcome \<Rightarrow>
          (let later = call_ai_api_from service (Suc attempt) remaining
           in later\<lparr>run_requests := Suc (run_requests later),
                    run_sleeps := wait_time outcome attempt # run_sleeps later\<rparr>))"

definition call_ai_api :: "(nat \<Rightarrow> api_outcome) \<Rightarrow> nat \<Rightarrow> api_run" where
  "call_ai_api service max_retries = call_ai_api_from service 0 max_retries"

record ai_task =
  task_qid :: string
  task_question :: string
  task_options :: "string list"
  task_rule_answer :: string

record ai_result =
  res_qid :: string
  ai_answer :: string
  ai_success :: bool
  res_rule_answer :: string

text \<open>\<open>process_ai_task\<close>; \<open>call_ai_api\<close> is called with its default of 5 attempts.\<close>

definition process_ai_task :: "(nat \<Rightarrow> api_outcome) \<Rightarrow> ai_task \<Rightarrow> ai_result" where
  "process_ai_task service task =
     (let run = call_ai_api service 5
      in if run_success run \<and> \<not> falsy (run_response run)
         then \<lparr>res_qid = task_qid task,
               ai_answer = extract_ai_answer (get_default (run_response run) []) (task_options task),
               ai_success = True,
               res_rule_answer = task_rule_answer task\<rparr>
         else \<lparr>res_qid = task_qid task,
               ai_answer = task_rule_answer task,
               ai_success = False,
               res_rule_answer = task_rule_answer task\<rparr>)"

section \<open>data_parser: option mappings\<close>

text \<open>
  \<open>re.match(r'^([A-Z]?\d+|[A-I])\s*:\s*(.+)$', line)\<close> on a line without a newline,
  giving groups 1 and 2. After the colon at least one character must remain; the greedy
  \<open>\s*\<close> leaves the description without leading white space, unless the rest is white
  space only, where it gives back the last character.
\<close>

definition option_tail :: "string \<Rightarrow> string \<Rightarrow> (string \<times> string) option" where
  "option_tail option_id r =
     (case dropWhile is_space r of
        [] \<Rightarrow> None
      | c # d \<Rightarrow>
          if c = CHR '':'' \<and> d \<noteq> []
          then Some (option_id, if dropWhile is_space d = [] then [last d] else dropWhile is_space d)
          else None)"

definition match_option_line :: "string \<Rightarrow> (string \<times> string) option" where
  "match_option_line line =
     (case line of [] \<Rightarrow> None
      | c # rest \<Rightarrow>
          if is_upper_AZ c \<and> takeWhile is_digit rest \<noteq> []
          then option_tail (c # takeWhile is_digit rest) (dropWhile is_digit rest)
          else if is_digit c then option_tail (takeWhile is_digit line) (dropWhile is_digit line)
          else if is_upper_AI c then option_tail [c] rest
          else None)"

definition ROOT_CAUSE_KEYWORDS :: "(cause \<times> string list) list" where
  "ROOT_CAUSE_KEYWORDS =
     [(neighbor_higher, [''neighboring cell provides higher throughput'', ''neighbor cell provides higher'']),
      (overshoot, [''coverage distance exceeds 1km'', ''over-shooting'', ''overshooting'']),
      (overlap, [''overlapping coverage'', ''severe overlapping'']),
      (pci_conflict, [''PCI mod 30'', ''same PCI mod'']),
      (low_rb, [''RBs are below 160'', ''scheduled RBs are below'', ''Average scheduled RBs'']),
      (weak_coverage, [''downtilt angle is too large'', ''weak coverage at the far end'']),
      (high_speed, [''speed exceeds 40km/h'', ''Test vehicle speed exceeds'']),
      (handover, [''Frequent handovers'', ''handovers degrade''])]"

definition NONSTANDARD_KEYWORDS :: "(cause \<times> string list) list" where
  "NONSTANDARD_KEYWORDS =
     [(overlap, [''severe overlap'', ''overlapping coverage'', ''RF or power parameters cause severe overlap'']),
      (overlap_rf, [''severe overlapping coverage'', ''RF or power parameters cause severe overlapping'']),
      (inter_freq_threshold, [''inter-frequency handover threshold'', ''Inter-frequency handover'']),
      (capacity, [''capacity'', ''load imbalance'', ''network capacity'']),
      (transport_anomaly, [''transport anomaly'', ''transmission abnormality'', ''upstream traffic'',
                           ''Test server or transport'']),
      (uplink_issue, [''uplink traffic'', ''transmission abnormality'']),
      (neighbor_missing, [''neighbor configuration missing'', ''Missing neighbor'',
                          ''neighbor cell configuration'']),
      (weak_coverage_rf, [''weak coverage'',
                          ''RF, power parameters or site construction lead to weak coverage'',
                          ''site construction cause weak'']),
      (threshold_high, [''intra-frequency handover threshold is too high'', ''threshold too high'',
                        ''handover threshold too high'']),
      (threshold_low, [''intra-frequency handover threshold is too low'', ''threshold too low'',
                       ''frequent handover'', ''handover threshold too low'']),
      (pdcch, [''PDCCH resource management parameters unreasonable'', ''PDCCH'',
               ''resource management'', ''CCE''])]"

text \<open>
  The keys of a keyword table with a keyword in the (lowered) description, in the order of
  the table: the loops \<open>for cause_type, keywords in table.items(): for keyword in keywords\<close>.
\<close>

definition matching_keys :: "('k \<times> string list) list \<Rightarrow> string \<Rightarrow> 'k list" where
  "matching_keys table description =
     map fst (filter (\<lambda>entry. list_ex (\<lambda>keyword. contains (lower keyword) description) (snd entry)) table)"

definition assign_all :: "'k list \<Rightarrow> 'v \<Rightarrow> ('k \<rightharpoonup> 'v) \<Rightarrow> ('k \<rightharpoonup> 'v)" where
  "assign_all keys v m = fold (\<lambda>k m'. m'(k \<mapsto> v)) keys m"

definition option_mapping_line :: "string \<Rightarrow> (cause \<rightharpoonup> string) \<Rightarrow> (cause \<rightharpoonup> string)" where
  "option_mapping_line raw_line mapping =
     (let line = strip raw_line
      in if line = [] then mapping
         else (case match_option_line line of
                 None \<Rightarrow> mapping
               | Some (option_id, group2) \<Rightarrow>
                   (let description = lower group2
                    in assign_all (matching_keys NONSTANDARD_KEYWORDS description) option_id
                         (assign_all (matching_keys ROOT_CAUSE_KEYWORDS description) option_id mapping))))"

definition extract_option_mapping :: "string \<Rightarrow> (cause \<rightharpoonup> string)" where
  "extract_option_mapping question = fold option_mapping_line (split_lines question) Map.empty"

datatype cause_code = C1 | C2 | C3 | C4 | C5 | C6 | C7 | C8

definition CAUSE_KEYWORDS :: "(cause_code \<times> string list) list" where
  "CAUSE_KEYWORDS =
     [(C1, [''downtilt'', ''weak coverage'', ''far end'']),
      (C2, [''coverage distance exceeds'', ''over-shooting'', ''overshooting'']),
      (C3, [''neighboring cell provides higher'']),
      (C4, [''overlapping coverage'', ''overlapping'']),
      (C5, [''frequent handover'', ''handovers degrade'']),
      (C6, [''PCI mod 30'']),
      (C7, [''speed exceeds 40'']),
      (C8, [''RBs are below'', ''scheduled RBs''])]"

definition reverse_map_line ::
  "string \<Rightarrow> (cause_code \<rightharpoonup> string) \<times> (string \<rightharpoonup> cause_code)
          \<Rightarrow> (cause_code \<rightharpoonup> string) \<times> (string \<rightharpoonup> cause_code)" where
  "reverse_map_line raw_line maps =
     (case match_option_line (strip raw_line) of
        None \<Rightarrow> maps
      | Some (option_id, group2) \<Rightarrow>
          (let causes = matching_keys CAUSE_KEYWORDS (lower group2)
           in (assign_all causes option_id (fst maps),
               fold (\<lambda>c m. m(option_id \<mapsto> c)) causes (snd maps))))"

definition get_cause_to_option_reverse_map ::
  "string \<Rightarrow> (cause_code \<rightharpoonup> string) \<times> (string \<rightharpoonup> cause_code)" where
  "get_cause_to_option_reverse_map question =
     fold reverse_map_line (split_lines question) (Map.empty, Map.empty)"

section \<open>The option patterns, written out\<close>

text \<open>
  The lines that the three patterns of \<open>extract_options_from_question\<close> accept, and the
  option each gives, stated on the shape of the line: an upper-case letter and digits, or
  digits, or a letter from A to I, then optional white space and a colon.
\<close>

definition digit_chars :: string where
  "digit_chars = ''0123456789''"

definition upper_chars :: string where
  "upper_chars = ''ABCDEFGHIJKLMNOPQRSTUVWXYZ''"

definition option_letters :: string where
  "option_letters = ''ABCDEFGHI''"

definition prefixed_option_line :: "string \<Rightarrow> string \<Rightarrow> bool" where
  "prefixed_option_line line opt =
     (\<exists>c ds ws rest. line = c # ds @ ws @ CHR '':'' # rest \<and> c \<in> set upper_chars \<and>
        ds \<noteq> [] \<and> set ds \<subseteq> set digit_chars \<and> list_all is_space ws \<and> opt = c # ds)"

definition numeric_option_line :: "string \<Rightarrow> string \<Rightarrow> bool" where
  "numeric_option_line line opt =
     (\<exists>ds ws rest. line = ds @ ws @ CHR '':'' # rest \<and>
        ds \<noteq> [] \<and> set ds \<subseteq> set digit_chars \<and> list_all is_space ws \<and> opt = ds)"

definition letter_option_line :: "string \<Rightarrow> string \<Rightarrow> bool" where
  "letter_option_line line opt =
     (\<exists>c ws rest. line = c # ws @ CHR '':'' # rest \<and> c \<in> set option_letters \<and>
        list_all is_space ws \<and> opt = [c])"

text \<open>The text whose lines are the given ones: the inverse of \<open>split('\n')\<close>.\<close>

fun join_lines :: "string list \<Rightarrow> string" where
  "join_lines [] = []"
| "join_lines [l] = l"
| "join_lines (l # m # ls) = l @ CHR 0x0A # join_lines (m # ls)"

text \<open>Question texts for worked examples of option extraction.\<close>

definition prefixed_example :: string where
  "prefixed_example =
     ''  A1: x'' @ [CHR 0x0A] @ ''2: y'' @ [CHR 0x0A] @ ''B: z'' @ [CHR 0x0A] @
     ''A1 : again'' @ [CHR 0x0A] @ ''B22:w''"

definition numeric_example :: string where
  "numeric_example =
     ''B: z'' @ [CHR 0x0A] @ ''10 : w'' @ [CHR 0x0A, CHR 0x09] @ ''2: y'' @ [CHR 0x0A] @ ''10: t''"

definition letter_example :: string where
  "letter_example = ''B: x'' @ [CHR 0x0A] @ ''A : y'' @ [CHR 0x0A] @ ''B: z'' @ [CHR 0x0A] @ ''J: no''"

definition plain_example :: string where
  "plain_example = ''a1: x'' @ [CHR 0x0A] @ ''A1 no colon'' @ [CHR 0x0A] @ ''x 2: y''"

section \<open>The stages of answer extraction, written out\<close>

text \<open>
  \<open>leftmost_match m s g\<close>: the anchored matcher \<open>m\<close> succeeds with \<open>g\<close> at some position
  of \<open>s\<close> and fails at every earlier position. \<open>same_ignoring_case\<close> compares two texts up to
  the case of letters. \<open>word_edge before after\<close> is the boundary \<open>\b\<close> between the text
  before a position and the text after it, and \<open>bounded_occurrence opt text\<close> says that
  \<open>opt\<close> occurs in \<open>text\<close> between two such boundaries.
\<close>

definition leftmost_match :: "(string \<Rightarrow> 'a option) \<Rightarrow> string \<Rightarrow> 'a \<Rightarrow> bool" where
  "leftmost_match m s g =
     (\<exists>i\<le>length s. m (drop i s) = Some g \<and> (\<forall>j<i. m (drop j s) = None))"

definition same_ignoring_case :: "string \<Rightarrow> string \<Rightarrow> bool" where
  "same_ignoring_case a b = (map lower_char a = map lower_char b)"

definition word_edge :: "string \<Rightarrow> string \<Rightarrow> bool" where
  "word_edge before after =
     ((before \<noteq> [] \<and> is_word (last before)) \<noteq> (after \<noteq> [] \<and> is_word (hd after)))"

definition bounded_occurrence :: "string \<Rightarrow> string \<Rightarrow> bool" where
  "bounded_occurrence opt text =
     (\<exists>pre suf. text = pre @ opt @ suf \<and> word_edge pre (opt @ suf) \<and> word_edge (pre @ opt) suf)"

text \<open>
  The shapes of the text at a match of the pattern groups: \<open>digit_run ds rest\<close> is a
  longest non-empty run of digits \<open>ds\<close> before \<open>rest\<close>; \<open>option_group_shape\<close> is the
  group \<open>([A-Z]?\d+|[A-I])\<close> and \<open>letter_group_shape\<close> the group \<open>([A-I])\<close>, letters
  of either case; \<open>tagged_shape\<close> is a literal, a longest run of colons and white space,
  and then a group; \<open>boxed_shape\<close> is a literal, a non-empty text without a closing
  brace, and a closing brace. \<open>pattern_shape k\<close> is the k-th pattern of the list.
\<close>

definition lower_chars :: string where
  "lower_chars = ''abcdefghijklmnopqrstuvwxyz''"

definition digit_run :: "string \<Rightarrow> string \<Rightarrow> bool" where
  "digit_run ds rest =
     (ds \<noteq> [] \<and> set ds \<subseteq> set digit_chars \<and> (rest = [] \<or> hd rest \<notin> set digit_chars))"

definition option_group_shape :: "string \<Rightarrow> string \<Rightarrow> bool" where
  "option_group_shape s g =
     ((\<exists>c ds rest. s = c # ds @ rest \<and> c \<in> set upper_chars \<union> set lower_chars \<and>
         digit_run ds rest \<and> g = c # ds) \<or>
      (\<exists>ds rest. s = ds @ rest \<and> digit_run ds rest \<and> g = ds) \<or>
      (\<exists>c rest. s = c # rest \<and> c \<in> set option_letters \<union> set (take 9 lower_chars) \<and>
         (rest = [] \<or> hd rest \<notin> set digit_chars) \<and> g = [c]))"

definition letter_group_shape :: "string \<Rightarrow> string \<Rightarrow> bool" where
  "letter_group_shape s g =
     (\<exists>c rest. s = c # rest \<and> c \<in> set option_letters \<union> set (take 9 lower_chars) \<and> g = [c])"

definition tagged_shape :: "string \<Rightarrow> (string \<Rightarrow> string \<Rightarrow> bool) \<Rightarrow> string \<Rightarrow> string \<Rightarrow> bool" where
  "tagged_shape literal group_shape s g =
     (\<exists>t ws rest. s = t @ ws @ rest \<and> same_ignoring_case t literal \<and>
        list_all colon_or_space ws \<and> (rest = [] \<or> \<not> colon_or_space (hd rest)) \<and>
        group_shape rest g)"

definition boxed_shape :: "string \<Rightarrow> string \<Rightarrow> string \<Rightarrow> bool" where
  "boxed_shape literal s g =
     (\<exists>t rest. s = t @ g @ CHR ''}'' # rest \<and> same_ignoring_case t literal \<and>
        g \<noteq> [] \<and> CHR ''}'' \<notin> set g)"

definition pattern_shape :: "nat \<Rightarrow> string \<Rightarrow> string \<Rightarrow> bool" where
  "pattern_shape k s g =
     (if k = 0 then boxed_shape (CHR 0x5C # ''boxed{'') s g
      else if k = 1 then boxed_shape ''boxed{'' s g
      else if k = 2 then tagged_shape ''Final Answer'' option_group_shape s g
      else if k = 3 then tagged_shape ''The answer is'' option_group_shape s g
      else if k = 4 then tagged_shape ''Answer'' letter_group_shape s g
      else if k = 5 then tagged_shape ''Option'' letter_group_shape s g
      else False)"

section \<open>Verification\<close>

subsection \<open>Lines, stripping and first occurrences\<close>

lemma split_on_nonempty: "split_on c s \<noteq> []"
  by (induction s) (auto split: list.splits)

lemma split_on_no_separator: "l \<in> set (split_on c s) \<Longrightarrow> c \<notin> set l"
proof (induction s arbitrary: l)
  case Nil
  then show ?case by simp
next
  case (Cons x s)
  then show ?case
    by (cases "split_on c s") (auto split: if_splits)
qed

lemma join_lines_Cons: "ls \<noteq> [] \<Longrightarrow> join_lines (l # ls) = l @ CHR 0x0A # join_lines ls"
  by (cases ls) simp_all

lemma join_lines_Cons_head: "join_lines ((x # w) # ws) = x # join_lines (w # ws)"
  by (cases ws) simp_all

lemma join_split_lines: "join_lines (split_lines s) = s"
proof (induction s)
  case Nil
  show ?case by (simp add: split_lines_def)
next
  case (Cons x s)
  then show ?case
    using split_on_nonempty [of "CHR 0x0A" s]
    by (cases "split_on (CHR 0x0A) s")
       (auto simp: split_lines_def join_lines_Cons join_lines_Cons_head)
qed

lemma strip_decompose:
  "\<exists>a b. s = a @ strip s @ b \<and> list_all is_space a \<and> list_all is_space b"
proof -
  let ?a = "takeWhile is_space s"
  let ?m = "dropWhile is_space s"
  let ?b = "rev (takeWhile is_space (rev ?m))"
  have "rev ?m = takeWhile is_space (rev ?m) @ dropWhile is_space (rev ?m)" by simp
  then have "?m = rev (dropWhile is_space (rev ?m)) @ ?b"
    by (metis rev_append rev_rev_ident)
  then have "s = ?a @ strip s @ ?b"
    unfolding strip_def by (metis takeWhile_dropWhile_id)
  moreover have "list_all is_space ?a" "list_all is_space ?b"
    by (auto simp: list_all_iff dest: set_takeWhileD)
  ultimately show ?thesis by blast
qed

lemma dropWhile_snoc_keep:
  assumes "\<not> P z"
  shows "\<exists>t. dropWhile P (ys @ [z]) = t @ [z]"
  using assms by (cases "\<forall>y\<in>set ys. P y") (auto simp: dropWhile_append)

lemma strip_ends:
  assumes "strip s \<noteq> []"
  shows "\<not> is_space (hd (strip s)) \<and> \<not> is_space (last (strip s))"
proof -
  let ?m = "dropWhile is_space s"
  have ne: "dropWhile is_space (rev ?m) \<noteq> []" using assms by (simp add: strip_def)
  then have l: "\<not> is_space (hd (dropWhile is_space (rev ?m)))" by (rule hd_dropWhile)
  have "last (strip s) = hd (dropWhile is_space (rev ?m))"
    by (simp add: strip_def last_rev)
  with l have last: "\<not> is_space (last (strip s))" by simp
  have mne: "?m \<noteq> []" using ne by (cases ?m) simp_all
  then have h: "\<not> is_space (hd ?m)" by (rule hd_dropWhile)
  have "rev ?m = rev (tl ?m) @ [hd ?m]"
    using mne by (metis hd_Cons_tl rev.simps(2))
  with dropWhile_snoc_keep [of is_space "hd ?m" "rev (tl ?m)"] h
  obtain t where "dropWhile is_space (rev ?m) = t @ [hd ?m]" by auto
  then have "hd (strip s) = hd ?m"
    by (simp add: strip_def)
  with h last show ?thesis by simp
qed

lemma remdups_snoc: "remdups (ys @ [x]) = filter (\<lambda>y. y \<noteq> x) (remdups ys) @ [x]"
  by (induction ys) auto

lemma first_occurrences_filter:
  "first_occurrences seen xs = rev (remdups (rev (filter (\<lambda>x. x \<notin> set seen) xs)))"
proof (induction xs arbitrary: seen)
  case Nil
  show ?case by simp
next
  case (Cons x xs)
  show ?case
  proof (cases "x \<in> set seen")
    case True
    then show ?thesis by (simp add: Cons.IH)
  next
    case False
    have "filter (\<lambda>y. y \<noteq> x) (remdups (rev (filter (\<lambda>y. y \<notin> set seen) xs)))
            = remdups (rev (filter (\<lambda>y. y \<notin> set (x # seen)) xs))"
      by (simp add: remdups_filter [symmetric] rev_filter [symmetric] conj_commute)
    then show ?thesis
      using False by (simp add: Cons.IH remdups_snoc)
  qed
qed

lemma first_occurrences_remdups: "first_occurrences [] xs = rev (remdups (rev xs))"
  by (simp add: first_occurrences_filter)

lemma first_occurrences_set:
  "set (first_occurrences seen xs) = set xs - set seen"
  by (induction xs arbitrary: seen) auto

lemma first_occurrences_distinct:
  "distinct (first_occurrences seen xs)"
  by (induction xs arbitrary: seen) (auto simp: first_occurrences_set)

lemma map_filter_eq_Nil_conv:
  "(List.map_filter f xs = []) = (\<forall>x\<in>set xs. f x = None)"
  by (induction xs) (auto simp: List.map_filter_simps split: option.splits)

subsection \<open>Option extraction\<close>

lemma char_in_range:
  fixes c :: char
  assumes "a \<le> code c" "code c < b"
  shows "c \<in> set (map char_of [a..<b])"
proof -
  have "c = char_of (code c)" by (simp add: code_def)
  moreover have "code c \<in> set [a..<b]" using assms by simp
  ultimately show ?thesis by (metis image_eqI set_map)
qed

lemma digit_chars_codes: "map char_of [48..<58::nat] = digit_chars"
  unfolding digit_chars_def by code_simp

lemma upper_chars_codes: "map char_of [65..<91::nat] = upper_chars"
  unfolding upper_chars_def by code_simp

lemma option_letters_codes: "map char_of [65..<74::nat] = option_letters"
  unfolding option_letters_def by code_simp

lemma is_digit_iff: "is_digit c \<longleftrightarrow> c \<in> set digit_chars"
proof
  assume "is_digit c"
  then have "48 \<le> code c" "code c < 58"
    by (simp_all add: is_digit_def)
  from char_in_range [OF this] show "c \<in> set digit_chars"
    unfolding digit_chars_codes .
next
  assume "c \<in> set digit_chars"
  then show "is_digit c" by (auto simp: digit_chars_def is_digit_def code_def)
qed

lemma is_upper_AZ_iff: "is_upper_AZ c \<longleftrightarrow> c \<in> set upper_chars"
proof
  assume "is_upper_AZ c"
  then have "65 \<le> code c" "code c < 91"
    by (simp_all add: is_upper_AZ_def)
  from char_in_range [OF this] show "c \<in> set upper_chars"
    unfolding upper_chars_codes .
next
  assume "c \<in> set upper_chars"
  then show "is_upper_AZ c" by (auto simp: upper_chars_def is_upper_AZ_def code_def)
qed

lemma is_upper_AI_iff: "is_upper_AI c \<longleftrightarrow> c \<in> set option_letters"
proof
  assume "is_upper_AI c"
  then have "65 \<le> code c" "code c < 74"
    by (simp_all add: is_upper_AI_def)
  from char_in_range [OF this] show "c \<in> set option_letters"
    unfolding option_letters_codes .
next
  assume "c \<in> set option_letters"
  then show "is_upper_AI c" by (auto simp: option_letters_def is_upper_AI_def code_def)
qed

lemma space_not_digit: "is_space c \<Longrightarrow> \<not> is_digit c"
  by (auto simp: is_space_def is_digit_def)

lemma colon_class: "\<not> is_space (CHR '':'')" "\<not> is_digit (CHR '':'')"
  by (simp_all add: is_space_def is_digit_def code_def)

lemma spaces_colon_iff:
  "spaces_colon r \<longleftrightarrow> (\<exists>ws rest. r = ws @ CHR '':'' # rest \<and> list_all is_space ws)"
proof
  assume "spaces_colon r"
  then obtain t where "dropWhile is_space r = CHR '':'' # t"
    by (auto simp: spaces_colon_def split: list.splits)
  then have "r = takeWhile is_space r @ CHR '':'' # t"
    by (metis takeWhile_dropWhile_id)
  moreover have "list_all is_space (takeWhile is_space r)"
    by (simp add: list_all_iff) (meson set_takeWhileD)
  ultimately show "\<exists>ws rest. r = ws @ CHR '':'' # rest \<and> list_all is_space ws" by blast
next
  assume "\<exists>ws rest. r = ws @ CHR '':'' # rest \<and> list_all is_space ws"
  then obtain ws rest where r: "r = ws @ CHR '':'' # rest" and ws: "list_all is_space ws" by blast
  have "dropWhile is_space r = CHR '':'' # rest"
    using ws colon_class(1) by (simp add: r list_all_iff dropWhile_append2)
  then show "spaces_colon r" by (simp add: spaces_colon_def)
qed

lemma digits_prefix:
  assumes "set ds \<subseteq> set digit_chars" "list_all is_space ws"
  shows "takeWhile is_digit (ds @ ws @ CHR '':'' # rest) = ds"
    and "dropWhile is_digit (ds @ ws @ CHR '':'' # rest) = ws @ CHR '':'' # rest"
proof -
  have d: "\<forall>x\<in>set ds. is_digit x" using assms(1) by (auto simp: is_digit_iff)
  have "takeWhile is_digit (ws @ CHR '':'' # rest) = []"
    using assms(2) colon_class(2) by (cases ws) (auto simp: space_not_digit)
  with d show "takeWhile is_digit (ds @ ws @ CHR '':'' # rest) = ds"
    by (simp add: takeWhile_append2)
  have "dropWhile is_digit (ws @ CHR '':'' # rest) = ws @ CHR '':'' # rest"
    using assms(2) colon_class(2) by (cases ws) (auto simp: space_not_digit)
  with d show "dropWhile is_digit (ds @ ws @ CHR '':'' # rest) = ws @ CHR '':'' # rest"
    by (simp add: dropWhile_append2)
qed

lemma takeWhile_digits: "set (takeWhile is_digit s) \<subseteq> set digit_chars"
  using set_takeWhileD [of _ is_digit s] by (auto simp: is_digit_iff)

lemma match_prefix_option_iff:
  "match_prefix_option line = Some opt \<longleftrightarrow> prefixed_option_line line opt"
proof
  assume m: "match_prefix_option line = Some opt"
  then obtain c rest where line: "line = c # rest"
    by (cases line) (simp_all add: match_prefix_option_def)
  from m line have c: "is_upper_AZ c" and ne: "takeWhile is_digit rest \<noteq> []"
    and sc: "spaces_colon (dropWhile is_digit rest)" and opt: "opt = c # takeWhile is_digit rest"
    by (auto simp: match_prefix_option_def split: if_splits)
  from sc obtain ws t where t: "dropWhile is_digit rest = ws @ CHR '':'' # t" "list_all is_space ws"
    by (auto simp: spaces_colon_iff)
  have "rest = takeWhile is_digit rest @ ws @ CHR '':'' # t"
    using t(1) by (metis takeWhile_dropWhile_id)
  with line c ne t(2) opt takeWhile_digits [of rest] show "prefixed_option_line line opt"
    unfolding prefixed_option_line_def is_upper_AZ_iff by blast
next
  assume "prefixed_option_line line opt"
  then obtain c ds ws rest where
    l: "line = c # ds @ ws @ CHR '':'' # rest" and c: "c \<in> set upper_chars" and ne: "ds \<noteq> []"
    and ds: "set ds \<subseteq> set digit_chars" and ws: "list_all is_space ws" and opt: "opt = c # ds"
    unfolding prefixed_option_line_def by blast
  have "spaces_colon (ws @ CHR '':'' # rest)"
    using ws by (auto simp: spaces_colon_iff)
  with c ne opt show "match_prefix_option line = Some opt"
    by (simp add: match_prefix_option_def l digits_prefix [OF ds ws] is_upper_AZ_iff)
qed

lemma match_num_option_iff:
  "match_num_option line = Some opt \<longleftrightarrow> numeric_option_line line opt"
proof
  assume m: "match_num_option line = Some opt"
  then have ne: "takeWhile is_digit line \<noteq> []"
    and sc: "spaces_colon (dropWhile is_digit line)" and opt: "opt = takeWhile is_digit line"
    by (auto simp: match_num_option_def split: if_splits)
  from sc obtain ws t where t: "dropWhile is_digit line = ws @ CHR '':'' # t" "list_all is_space ws"
    by (auto simp: spaces_colon_iff)
  have "line = takeWhile is_digit line @ ws @ CHR '':'' # t"
    using t(1) by (metis takeWhile_dropWhile_id)
  with ne t(2) opt takeWhile_digits [of line] show "numeric_option_line line opt"
    unfolding numeric_option_line_def by blast
next
  assume "numeric_option_line line opt"
  then obtain ds ws rest where
    l: "line = ds @ ws @ CHR '':'' # rest" and ne: "ds \<noteq> []"
    and ds: "set ds \<subseteq> set digit_chars" and ws: "list_all is_space ws" and opt: "opt = ds"
    unfolding numeric_option_line_def by blast
  have "spaces_colon (ws @ CHR '':'' # rest)"
    using ws by (auto simp: spaces_colon_iff)
  with ne opt show "match_num_option line = Some opt"
    by (simp add: match_num_option_def l digits_prefix [OF ds ws])
qed

lemma match_letter_option_iff:
  "match_letter_option line = Some opt \<longleftrightarrow> letter_option_line line opt"
proof
  assume m: "match_letter_option line = Some opt"
  then obtain c rest where line: "line = c # rest"
    by (cases line) (simp_all add: match_letter_option_def)
  from m line have c: "is_upper_AI c" and sc: "spaces_colon rest" and opt: "opt = [c]"
    by (auto simp: match_letter_option_def split: if_splits)
  from sc obtain ws t where "rest = ws @ CHR '':'' # t" "list_all is_space ws"
    by (auto simp: spaces_colon_iff)
  with line c opt show "letter_option_line line opt"
    unfolding letter_option_line_def is_upper_AI_iff by blast
next
  assume "letter_option_line line opt"
  then obtain c ws rest where
    l: "line = c # ws @ CHR '':'' # rest" and c: "c \<in> set option_letters"
    and ws: "list_all is_space ws" and opt: "opt = [c]"
    unfolding letter_option_line_def by blast
  have "spaces_colon (ws @ CHR '':'' # rest)"
    using ws by (auto simp: spaces_colon_iff)
  with c opt show "match_letter_option line = Some opt"
    by (simp add: match_letter_option_def l is_upper_AI_iff)
qed

lemma set_map_filter: "set (List.map_filter f xs) = {y. \<exists>x\<in>set xs. f x = Some y}"
  by (induction xs) (auto simp: List.map_filter_simps split: option.splits)

text \<open>
  C10. Option extraction returns a non-empty list without duplicates for every question
  text. With \<open>ls\<close> the stripped lines of the text: when a line has a prefixed option
  (an upper-case letter and digits before the colon) the result holds exactly the prefixed
  options, each at its first occurrence; else, when a line has a numeric option, exactly
  the numeric options, each at its first occurrence; else, when a line has a letter
  option, exactly the letters found, sorted; else the fixed list of the one-character
  strings 1 to 8, which is also the result for the empty text. The three patterns accept
  exactly the lines of the shapes written out above, the lines are the pieces of the text
  between newlines, and stripping removes the white space at both ends.
\<close>

theorem extract_options_nonempty_distinct:
  fixes question :: string
  defines "ls \<equiv> map strip (split_lines question)"
  defines "r \<equiv> extract_options_from_question question"
  defines "prefixed \<equiv> {opt. \<exists>line\<in>set ls. prefixed_option_line line opt}"
  defines "numeric \<equiv> {opt. \<exists>line\<in>set ls. numeric_option_line line opt}"
  defines "letters \<equiv> {opt. \<exists>line\<in>set ls. letter_option_line line opt}"
  shows "r \<noteq> [] \<and> distinct r \<and>
    (prefixed \<noteq> {} \<longrightarrow>
       set r = prefixed \<and> r = rev (remdups (rev (List.map_filter match_prefix_option ls)))) \<and>
    (prefixed = {} \<and> numeric \<noteq> {} \<longrightarrow>
       set r = numeric \<and> r = rev (remdups (rev (List.map_filter match_num_option ls)))) \<and>
    (prefixed = {} \<and> numeric = {} \<and> letters \<noteq> {} \<longrightarrow> set r = letters \<and> sorted r) \<and>
    (prefixed = {} \<and> numeric = {} \<and> letters = {} \<longrightarrow> r = default_option_list) \<and>
    extract_options_from_question [] = default_option_list \<and>
    concat default_option_list = ''12345678'' \<and>
    list_all (\<lambda>opt. length opt = 1) default_option_list \<and>
    (\<forall>line opt. match_prefix_option line = Some opt \<longleftrightarrow> prefixed_option_line line opt) \<and>
    (\<forall>line opt. match_num_option line = Some opt \<longleftrightarrow> numeric_option_line line opt) \<and>
    (\<forall>line opt. match_letter_option line = Some opt \<longleftrightarrow> letter_option_line line opt) \<and>
    join_lines (split_lines question) = question \<and>
    (\<forall>l\<in>set (split_lines question). CHR 0x0A \<notin> set l) \<and>
    (\<forall>s. \<exists>a b. s = a @ strip s @ b \<and> list_all is_space a \<and> list_all is_space b) \<and>
    (\<forall>s. strip s \<noteq> [] \<longrightarrow> \<not> is_space (hd (strip s)) \<and> \<not> is_space (last (strip s)))"
proof -
  let ?P = "List.map_filter match_prefix_option ls"
  let ?N = "List.map_filter match_num_option ls"
  let ?L = "List.map_filter match_letter_option ls"
  have P: "set ?P = prefixed"
    unfolding prefixed_def by (simp add: set_map_filter match_prefix_option_iff)
  have N: "set ?N = numeric"
    unfolding numeric_def by (simp add: set_map_filter match_num_option_iff)
  have L: "set ?L = letters"
    unfolding letters_def by (simp add: set_map_filter match_letter_option_iff)
  have Pe: "(?P = []) = (prefixed = {})" using P by (metis set_empty)
  have Ne: "(?N = []) = (numeric = {})" using N by (metis set_empty)
  have Le: "(?L = []) = (letters = {})" using L by (metis set_empty)
  have r: "r = (if ?P \<noteq> [] then first_occurrences [] ?P
                else if ?N \<noteq> [] then first_occurrences [] ?N
                else if ?L \<noteq> [] then sort (remdups ?L)
                else default_option_list)"
    unfolding r_def ls_def extract_options_from_question_def Let_def by simp
  have ne: "\<And>xs. xs \<noteq> [] \<Longrightarrow> first_occurrences [] xs \<noteq> []"
    by (metis first_occurrences_set empty_set Diff_empty set_empty)
  have ne2: "\<And>xs::string list. xs \<noteq> [] \<Longrightarrow> sort (remdups xs) \<noteq> []"
    by (metis set_sort set_remdups set_empty)
  have dflt: "default_option_list \<noteq> [] \<and> distinct default_option_list \<and>
              concat default_option_list = ''12345678'' \<and>
              list_all (\<lambda>opt. length opt = 1) default_option_list"
    by (simp add: default_option_list_def)
  have r_ne: "r \<noteq> []"
    using dflt by (auto simp: r dest: ne ne2)
  have r_dist: "distinct r"
    using dflt by (simp add: r first_occurrences_distinct)
  have c1: "prefixed \<noteq> {} \<longrightarrow> set r = prefixed \<and> r = rev (remdups (rev ?P))"
    using P Pe by (simp add: r first_occurrences_set first_occurrences_remdups [symmetric])
  have c2: "prefixed = {} \<and> numeric \<noteq> {} \<longrightarrow> set r = numeric \<and> r = rev (remdups (rev ?N))"
    using N Pe Ne by (simp add: r first_occurrences_set first_occurrences_remdups [symmetric])
  have c3: "prefixed = {} \<and> numeric = {} \<and> letters \<noteq> {} \<longrightarrow> set r = letters \<and> sorted r"
    using L Pe Ne Le by (simp add: r)
  have c4: "prefixed = {} \<and> numeric = {} \<and> letters = {} \<longrightarrow> r = default_option_list"
    using Pe Ne Le by (simp add: r)
  have empty: "extract_options_from_question [] = default_option_list"
    by (simp add: extract_options_from_question_def split_lines_def strip_def
        List.map_filter_simps match_prefix_option_def match_num_option_def
        match_letter_option_def)
  have d1: "concat default_option_list = ''12345678''"
    using dflt by simp
  have d2: "list_all (\<lambda>opt. length opt = 1) default_option_list"
    using dflt by simp
  have m1: "\<forall>line opt. match_prefix_option line = Some opt \<longleftrightarrow> prefixed_option_line line opt"
    by (simp add: match_prefix_option_iff)
  have m2: "\<forall>line opt. match_num_option line = Some opt \<longleftrightarrow> numeric_option_line line opt"
    by (simp add: match_num_option_iff)
  have m3: "\<forall>line opt. match_letter_option line = Some opt \<longleftrightarrow> letter_option_line line opt"
    by (simp add: match_letter_option_iff)
  have l1: "join_lines (split_lines question) = question"
    by (rule join_split_lines)
  have l2: "\<forall>l\<in>set (split_lines question). CHR 0x0A \<notin> set l"
    unfolding split_lines_def by (blast dest: split_on_no_separator)
  have s1: "\<forall>s. \<exists>a b. s = a @ strip s @ b \<and> list_all is_space a \<and> list_all is_space b"
    by (intro allI strip_decompose)
  have s2: "\<forall>s. strip s \<noteq> [] \<longrightarrow> \<not> is_space (hd (strip s)) \<and> \<not> is_space (last (strip s))"
    by (intro allI impI strip_ends)
  show ?thesis
    by (intro conjI) (rule r_ne r_dist c1 c2 c3 c4 empty d1 d2 m1 m2 m3 l1 l2 s1 s2)+
qed

theorem extract_options_nonempty_distinct_witness:
  "{opt. \<exists>line\<in>set (map strip (split_lines prefixed_example)). prefixed_option_line line opt}
     = {''A1'', ''B22''} \<and>
   extract_options_from_question prefixed_example = [''A1'', ''B22''] \<and>
   {opt. \<exists>line\<in>set (map strip (split_lines numeric_example)). numeric_option_line line opt}
     = {''10'', ''2''} \<and>
   extract_options_from_question numeric_example = [''10'', ''2''] \<and>
   {opt. \<exists>line\<in>set (map strip (split_lines letter_example)). letter_option_line line opt}
     = {''A'', ''B''} \<and>
   extract_options_from_question letter_example = [''A'', ''B''] \<and>
   extract_options_from_question plain_example = default_option_list"
proof -
  have e1: "extract_options_from_question prefixed_example = [''A1'', ''B22'']"
    by code_simp
  have e2: "extract_options_from_question numeric_example = [''10'', ''2'']"
    by code_simp
  have e3: "extract_options_from_question letter_example = [''A'', ''B'']"
    by code_simp
  have e4: "extract_options_from_question plain_example = default_option_list"
    by code_simp
  have p1: "''A1: x'' \<in> set (map strip (split_lines prefixed_example))"
    by code_simp
  have "match_prefix_option ''A1: x'' = Some ''A1''" by code_simp
  then have "prefixed_option_line ''A1: x'' ''A1''" by (simp add: match_prefix_option_iff)
  with p1 have h1:
    "{opt. \<exists>line\<in>set (map strip (split_lines prefixed_example)). prefixed_option_line line opt} \<noteq> {}"
    by blast
  have n_p: "List.map_filter match_prefix_option (map strip (split_lines numeric_example)) = []"
    by code_simp
  have n_n: "List.map_filter match_num_option (map strip (split_lines numeric_example)) = [''10'', ''2'', ''10'']"
    by code_simp
  have l_p: "List.map_filter match_prefix_option (map strip (split_lines letter_example)) = []"
    by code_simp
  have l_n: "List.map_filter match_num_option (map strip (split_lines letter_example)) = []"
    by code_simp
  have l_l: "List.map_filter match_letter_option (map strip (split_lines letter_example)) = [''B'', ''A'', ''B'']"
    by code_simp
  have h2: "{opt. \<exists>line\<in>set (map strip (split_lines numeric_example)). prefixed_option_line line opt} = {}"
    using n_p by (simp add: map_filter_eq_Nil_conv match_prefix_option_iff [symmetric])
  have h2': "{opt. \<exists>line\<in>set (map strip (split_lines numeric_example)). numeric_option_line line opt} \<noteq> {}"
    using arg_cong [OF n_n, of set]
    by (simp add: set_map_filter match_num_option_iff)
  have h3: "{opt. \<exists>line\<in>set (map strip (split_lines letter_example)). prefixed_option_line line opt} = {}"
    using l_p by (simp add: map_filter_eq_Nil_conv match_prefix_option_iff [symmetric])
  have h3': "{opt. \<exists>line\<in>set (map strip (split_lines letter_example)). numeric_option_line line opt} = {}"
    using l_n by (simp add: map_filter_eq_Nil_conv match_num_option_iff [symmetric])
  have h3'': "{opt. \<exists>line\<in>set (map strip (split_lines letter_example)). letter_option_line line opt} \<noteq> {}"
    using arg_cong [OF l_l, of set]
    by (simp add: set_map_filter match_letter_option_iff)
  from extract_options_nonempty_distinct [of prefixed_example, THEN conjunct2, THEN conjunct2,
      THEN conjunct1] h1
  have s1: "{opt. \<exists>line\<in>set (map strip (split_lines prefixed_example)). prefixed_option_line line opt}
              = set (extract_options_from_question prefixed_example)"
    by blast
  from extract_options_nonempty_distinct [of numeric_example, THEN conjunct2, THEN conjunct2,
      THEN conjunct2, THEN conjunct1] h2 h2'
  have s2: "{opt. \<exists>line\<in>set (map strip (split_lines numeric_example)). numeric_option_line line opt}
              = set (extract_options_from_question numeric_example)"
    by blast
  from extract_options_nonempty_distinct [of letter_example, THEN conjunct2, THEN conjunct2,
      THEN conjunct2, THEN conjunct2, THEN conjunct1] h3 h3' h3''
  have s3: "{opt. \<exists>line\<in>set (map strip (split_lines letter_example)). letter_option_line line opt}
              = set (extract_options_from_question letter_example)"
    by blast
  show ?thesis
    unfolding s1 s2 s3 e1 e2 e3 e4 by auto
qed

text \<open>
  C5. A feature value with \<open>num_neighbors\<close> at least 3 makes the standard classifier
  return confidence high and the overlap cause, by rule 1, whatever the other fields,
  the option mapping and the option list are.
\<close>

theorem neighbors_ge_3_overlap_high:
  assumes "num_neighbors f = Some n" and "n \<ge> 3"
  shows "\<exists>answer. solve_standard_question_with_confidence (Some f) option_mapping default_options
           = (answer, high, overlap, 1)"
proof -
  have "features_nonempty f"
    using assms(1) by (simp add: features_nonempty_def)
  moreover have "standard_cascade f = (overlap, high, 1)"
    using assms by (simp add: standard_cascade_def get_default_def)
  ultimately show ?thesis
    by (simp add: solve_standard_question_with_confidence_def)
qed

theorem neighbors_ge_3_overlap_high_witness:
  "\<exists>answer. solve_standard_question_with_confidence
      (Some \<lparr>min_rsrp = Some (- 120), avg_rsrp = None, max_tilt = Some 40, min_tilt = None,
             total_tilt = None, handovers = Some 7, num_neighbors = Some 3,
             max_speed = Some 90, avg_rb = Some 10, has_pci_conflict = Some True,
             other_keys = []\<rparr>)
      (Map.empty(overlap \<mapsto> ''4'')) [''1'', ''4'']
    = (answer, high, overlap, 1)"
  by (rule neighbors_ge_3_overlap_high [where n = 3]) simp_all

subsection \<open>Similarity\<close>

lemma normalizer_pos: "normalizer key > 0"
  by (simp add: normalizer_def normalizers_def)

lemma attribute_sim_bounds: "0 \<le> attribute_sim key v1 v2 \<and> attribute_sim key v1 v2 \<le> 1"
  using normalizer_pos [of key] by (simp add: attribute_sim_def)

lemma attribute_sim_sym: "attribute_sim key v1 v2 = attribute_sim key v2 v1"
  by (simp add: attribute_sim_def abs_minus_commute)

lemma similarity_step_sym: "similarity_step a b kw acc = similarity_step b a kw acc"
  by (auto simp: similarity_step_def attribute_sim_sym split: option.splits)

lemma similarity_step_eq:
  "similarity_step (get_default f1 []) (get_default f2 []) kw acc =
     (fst acc + weighted_term f1 f2 kw, snd acc + (if shared f1 f2 kw then snd kw else 0))"
  by (cases acc) (auto simp: similarity_step_def weighted_term_def shared_def split: option.splits)

lemma fold_pair_sum:
  fixes g h :: "'a \<Rightarrow> real"
  shows "fold (\<lambda>kw acc. (fst acc + g kw, snd acc + h kw)) ws acc
           = (fst acc + sum_list (map g ws), snd acc + sum_list (map h ws))"
  by (induction ws arbitrary: acc) (simp_all add: add.assoc)

lemma sum_list_if_filter:
  fixes h :: "'a \<Rightarrow> real"
  shows "sum_list (map (\<lambda>x. if P x then h x else 0) ws) = sum_list (map h (filter P ws))"
  by (induction ws) simp_all

lemma fold_similarity_step:
  "fold (similarity_step (get_default f1 []) (get_default f2 [])) ws acc =
     (fst acc + (\<Sum>kw\<leftarrow>ws. weighted_term f1 f2 kw),
      snd acc + (\<Sum>kw\<leftarrow>filter (shared f1 f2) ws. snd kw))"
proof -
  have "similarity_step (get_default f1 []) (get_default f2 []) =
          (\<lambda>kw acc. (fst acc + weighted_term f1 f2 kw,
                      snd acc + (if shared f1 f2 kw then snd kw else 0)))"
    by (intro ext) (rule similarity_step_eq)
  then show ?thesis
    by (simp only: fold_pair_sum sum_list_if_filter)
qed

lemma weighted_term_bounds:
  assumes "0 \<le> snd kw"
  shows "0 \<le> weighted_term f1 f2 kw \<and> weighted_term f1 f2 kw \<le>
    (if shared f1 f2 kw then snd kw else 0)"
  using assms attribute_sim_bounds
  by (auto simp: weighted_term_def shared_def mult_left_le split: option.splits)


lemma weighted_term_not_shared: "\<not> shared f1 f2 kw \<Longrightarrow> weighted_term f1 f2 kw = 0"
  by (auto simp: weighted_term_def shared_def split: option.splits)

lemma sum_weighted_term_filter:
  "sum_list (map (weighted_term f1 f2) ws) = sum_list (map (weighted_term f1 f2) (filter (shared f1 f2) ws))"
  by (induction ws) (simp_all add: weighted_term_not_shared)

lemma sum_weighted_term_bounds:
  assumes "\<forall>kw\<in>set ws. 0 \<le> snd kw"
  shows "0 \<le> sum_list (map (weighted_term f1 f2) ws) \<and>
         sum_list (map (weighted_term f1 f2) ws) \<le> sum_list (map snd (filter (shared f1 f2) ws))"
  using assms
proof (induction ws)
  case Nil
  show ?case by simp
next
  case (Cons kw ws)
  have "0 \<le> snd kw" using Cons.prems by simp
  from weighted_term_bounds [OF this, of f1 f2] Cons show ?case
    by (auto split: if_splits)
qed

lemma weights_pos: "\<forall>kw\<in>set weights. 0 < snd kw"
  by (simp add: weights_def)

lemma sum_pos_weights:
  assumes "\<forall>kw\<in>set ws. 0 < snd kw" and "ws \<noteq> []"
  shows "0 < sum_list (map snd ws :: real list)"
proof (cases ws)
  case Nil
  with assms show ?thesis by simp
next
  case (Cons kw ws')
  have "0 \<le> sum_list (map snd ws' :: real list)"
    using assms(1) Cons by (intro sum_list_nonneg) (auto simp: less_imp_le)
  moreover have "0 < snd kw" using assms(1) Cons by simp
  ultimately show ?thesis using Cons by simp
qed

lemma no_snapshot_shared: "no_snapshot f1 \<or> no_snapshot f2 \<Longrightarrow> shared_attributes f1 f2 = []"
  by (auto simp: no_snapshot_def shared_attributes_def shared_def snapshot_get_def get_default_def)

lemma compute_similarity_eq:
  "compute_similarity f1 f2 =
     (if shared_attributes f1 f2 = [] then 0
      else sum_list (map (weighted_term f1 f2) (shared_attributes f1 f2)) /
           sum_list (map snd (shared_attributes f1 f2)))"
proof (cases "no_snapshot f1 \<or> no_snapshot f2")
  case True
  then show ?thesis
    by (simp add: compute_similarity_def no_snapshot_shared)
next
  case False
  have pos: "shared_attributes f1 f2 \<noteq> [] \<Longrightarrow> 0 < sum_list (map snd (shared_attributes f1 f2))"
    using weights_pos by (intro sum_pos_weights) (auto simp: shared_attributes_def)
  from False show ?thesis
    using pos
    by (simp add: compute_similarity_def fold_similarity_step Let_def
        sum_weighted_term_filter [of f1 f2 weights] shared_attributes_def [symmetric])
qed

lemma compute_similarity_sym: "compute_similarity f1 f2 = compute_similarity f2 f1"
proof -
  have "similarity_step (get_default f1 []) (get_default f2 []) =
        similarity_step (get_default f2 []) (get_default f1 [])"
    by (intro ext) (rule similarity_step_sym)
  then show ?thesis
    by (simp add: compute_similarity_def disj_commute)
qed

lemma compute_similarity_range: "0 \<le> compute_similarity f1 f2 \<and> compute_similarity f1 f2 \<le> 1"
proof (cases "shared_attributes f1 f2 = []")
  case True
  then show ?thesis by (simp add: compute_similarity_eq)
next
  case False
  have nn: "\<forall>kw\<in>set weights. 0 \<le> snd kw"
    using weights_pos by (auto simp: less_imp_le)
  have pos: "0 < sum_list (map snd (shared_attributes f1 f2))"
    using weights_pos False by (intro sum_pos_weights) (auto simp: shared_attributes_def)
  from sum_weighted_term_bounds [OF nn, of f1 f2]
  have "0 \<le> sum_list (map (weighted_term f1 f2) (shared_attributes f1 f2)) \<and>
        sum_list (map (weighted_term f1 f2) (shared_attributes f1 f2))
          \<le> sum_list (map snd (shared_attributes f1 f2))"
    by (simp add: sum_weighted_term_filter [of f1 f2 weights] shared_attributes_def)
  with pos False show ?thesis
    by (simp add: compute_similarity_eq)
qed

text \<open>
  C9. \<open>compute_similarity\<close> is symmetric and its value lies between 0 and 1. Only the
  attributes with a value in both snapshots count: the value is the weighted mean of their
  terms, with the weights of those attributes alone in the denominator, and it is 0 when
  no attribute is shared.
\<close>

theorem compute_similarity_symmetric_bounded_masked:
  "compute_similarity f1 f2 = compute_similarity f2 f1 \<and>
   0 \<le> compute_similarity f1 f2 \<and> compute_similarity f1 f2 \<le> 1 \<and>
   (shared_attributes f1 f2 = [] \<longrightarrow> compute_similarity f1 f2 = 0) \<and>
   (shared_attributes f1 f2 \<noteq> [] \<longrightarrow>
      compute_similarity f1 f2 =
        sum_list (map (weighted_term f1 f2) (shared_attributes f1 f2)) /
        sum_list (map snd (shared_attributes f1 f2)))"
  using compute_similarity_sym [of f1 f2] compute_similarity_range [of f1 f2]
  by (simp add: compute_similarity_eq)


theorem compute_similarity_symmetric_bounded_masked_witness:
  "shared_attributes (Some [(''min_rsrp'', Some (- 90)), (''max_tilt'', None)])
                     (Some [(''min_rsrp'', Some (- 105)), (''max_tilt'', Some 10), (''avg_rb'', Some 100)])
     = [(''min_rsrp'', 2)] \<and>
   compute_similarity (Some [(''min_rsrp'', Some (- 90)), (''max_tilt'', None)])
                      (Some [(''min_rsrp'', Some (- 105)), (''max_tilt'', Some 10), (''avg_rb'', Some 100)])
     = 1 / 2 \<and>
   compute_similarity (Some [(''min_rsrp'', Some (- 105)), (''max_tilt'', Some 10), (''avg_rb'', Some 100)])
                      (Some [(''min_rsrp'', Some (- 90)), (''max_tilt'', None)])
     = 1 / 2 \<and>
   shared_attributes (Some [(''max_tilt'', Some 3)]) (Some [(''avg_rb'', Some 5)]) = [] \<and>
   compute_similarity (Some [(''max_tilt'', Some 3)]) (Some [(''avg_rb'', Some 5)]) = 0"
proof -
  let ?a = "Some [(''min_rsrp'', Some (- 90)), (''max_tilt'', None)] :: snapshot option"
  let ?b = "Some [(''min_rsrp'', Some (- 105)), (''max_tilt'', Some 10), (''avg_rb'', Some 100)] :: snapshot option"
  let ?c = "Some [(''max_tilt'', Some 3)] :: snapshot option"
  let ?d = "Some [(''avg_rb'', Some 5)] :: snapshot option"
  have sh: "shared_attributes ?a ?b = [(''min_rsrp'', 2)]"
    by (simp add: shared_attributes_def shared_def weights_def snapshot_get_def get_default_def)
  have wt: "weighted_term ?a ?b (''min_rsrp'', 2) = 1"
    by (simp add: weighted_term_def snapshot_get_def get_default_def attribute_sim_def
        normalizer_def normalizers_def)
  have sh0: "shared_attributes ?c ?d = []"
    by (simp add: shared_attributes_def shared_def weights_def snapshot_get_def get_default_def)
  from compute_similarity_symmetric_bounded_masked [of ?a ?b]
  have "compute_similarity ?a ?b = 1 / 2 \<and> compute_similarity ?b ?a = 1 / 2"
    by (simp add: sh wt)
  moreover from compute_similarity_symmetric_bounded_masked [of ?c ?d]
  have "compute_similarity ?c ?d = 0"
    by (simp add: sh0)
  ultimately show ?thesis
    using sh sh0 by simp
qed

subsection \<open>Answer extraction\<close>

lemma startswith_iff: "startswith s p \<longleftrightarrow> (\<exists>t. s = p @ t)"
  by (induction s p rule: startswith.induct) auto

lemma contains_iff: "contains sub s \<longleftrightarrow> (\<exists>a b. s = a @ sub @ b)"
proof (induction s)
  case Nil
  show ?case by auto
next
  case (Cons x xs)
  show ?case
  proof
    assume "contains sub (x # xs)"
    then consider "startswith (x # xs) sub" | "contains sub xs" by auto
    then show "\<exists>a b. x # xs = a @ sub @ b"
    proof cases
      case 1
      then obtain t where "x # xs = sub @ t" by (auto simp: startswith_iff)
      then have "x # xs = [] @ sub @ t" by simp
      then show ?thesis by blast
    next
      case 2
      then obtain a b where "xs = a @ sub @ b" using Cons.IH by blast
      then have "x # xs = (x # a) @ sub @ b" by simp
      then show ?thesis by blast
    qed
  next
    assume "\<exists>a b. x # xs = a @ sub @ b"
    then obtain a b where ab: "x # xs = a @ sub @ b" by blast
    show "contains sub (x # xs)"
    proof (cases a)
      case Nil
      with ab have "startswith (x # xs) sub" by (auto simp: startswith_iff)
      then show ?thesis by simp
    next
      case (Cons y a')
      with ab have "xs = a' @ sub @ b" by simp
      then have "contains sub xs" using Cons.IH by blast
      then show ?thesis by simp
    qed
  qed
qed

lemma re_search_Some_iff: "re_search m s = Some g \<longleftrightarrow> leftmost_match m s g"
proof (induction s)
  case Nil
  show ?case by (simp add: leftmost_match_def)
next
  case (Cons x xs)
  show ?case
  proof (cases "m (x # xs)")
    case (Some g')
    have "leftmost_match m (x # xs) g \<longleftrightarrow> g = g'"
    proof
      assume "leftmost_match m (x # xs) g"
      then obtain i where i: "m (drop i (x # xs)) = Some g" "\<forall>j<i. m (drop j (x # xs)) = None"
        unfolding leftmost_match_def by blast
      have "i = 0"
      proof (rule ccontr)
        assume "i \<noteq> 0"
        then have "m (drop 0 (x # xs)) = None" using i(2) by blast
        with Some show False by simp
      qed
      with i(1) Some show "g = g'" by simp
    next
      assume "g = g'"
      with Some show "leftmost_match m (x # xs) g"
        unfolding leftmost_match_def by (intro exI [of _ 0]) simp
    qed
    with Some show ?thesis by auto
  next
    case None
    have "leftmost_match m (x # xs) g \<longleftrightarrow> leftmost_match m xs g"
    proof
      assume "leftmost_match m (x # xs) g"
      then obtain i where i: "i \<le> length (x # xs)" "m (drop i (x # xs)) = Some g"
        "\<forall>j<i. m (drop j (x # xs)) = None"
        unfolding leftmost_match_def by blast
      from i(2) None obtain k where k: "i = Suc k" by (cases i) simp_all
      have "\<forall>j<k. m (drop j xs) = None"
      proof (intro allI impI)
        fix j assume "j < k"
        then have "m (drop (Suc j) (x # xs)) = None" using i(3) k by blast
        then show "m (drop j xs) = None" by simp
      qed
      with i(1,2) k show "leftmost_match m xs g"
        unfolding leftmost_match_def by (intro exI [of _ k]) simp
    next
      assume "leftmost_match m xs g"
      then obtain k where k: "k \<le> length xs" "m (drop k xs) = Some g" "\<forall>j<k. m (drop j xs) = None"
        unfolding leftmost_match_def by blast
      have "\<forall>j<Suc k. m (drop j (x # xs)) = None"
      proof (intro allI impI)
        fix j assume "j < Suc k"
        then show "m (drop j (x # xs)) = None"
          using None k(3) by (cases j) simp_all
      qed
      with k(1,2) show "leftmost_match m (x # xs) g"
        unfolding leftmost_match_def by (intro exI [of _ "Suc k"]) simp
    qed
    with None Cons.IH show ?thesis by simp
  qed
qed

lemma ci_literal_iff:
  "ci_literal lit s = Some rest \<longleftrightarrow> (\<exists>t. s = t @ rest \<and> same_ignoring_case t lit)"
proof (induction lit s rule: ci_literal.induct)
  case (1 s)
  show ?case by (auto simp: same_ignoring_case_def)
next
  case (2 p ps)
  show ?case by (auto simp: same_ignoring_case_def)
next
  case (3 p ps x xs)
  show ?case
  proof (cases "lower_char x = lower_char p")
    case True
    have "(\<exists>t. x # xs = t @ rest \<and> same_ignoring_case t (p # ps)) \<longleftrightarrow>
          (\<exists>t. xs = t @ rest \<and> same_ignoring_case t ps)"
    proof
      assume "\<exists>t. x # xs = t @ rest \<and> same_ignoring_case t (p # ps)"
      then obtain t where t: "x # xs = t @ rest" "same_ignoring_case t (p # ps)" by blast
      from t(2) obtain y t' where "t = y # t'" by (cases t) (auto simp: same_ignoring_case_def)
      with t show "\<exists>t. xs = t @ rest \<and> same_ignoring_case t ps"
        by (auto simp: same_ignoring_case_def)
    next
      assume "\<exists>t. xs = t @ rest \<and> same_ignoring_case t ps"
      then obtain t where "xs = t @ rest" "same_ignoring_case t ps" by blast
      with True have "x # xs = (x # t) @ rest \<and> same_ignoring_case (x # t) (p # ps)"
        by (simp add: same_ignoring_case_def)
      then show "\<exists>t. x # xs = t @ rest \<and> same_ignoring_case t (p # ps)" by blast
    qed
    with True 3 show ?thesis by simp
  next
    case False
    have "\<not> (\<exists>t. x # xs = t @ rest \<and> same_ignoring_case t (p # ps))"
    proof
      assume "\<exists>t. x # xs = t @ rest \<and> same_ignoring_case t (p # ps)"
      then obtain t where t: "x # xs = t @ rest" "same_ignoring_case t (p # ps)" by blast
      from t(2) obtain y t' where "t = y # t'" by (cases t) (auto simp: same_ignoring_case_def)
      with t False show False by (auto simp: same_ignoring_case_def)
    qed
    with False show ?thesis by simp
  qed
qed

lemma braces_group_iff:
  "braces_group r = Some g \<longleftrightarrow> (g \<noteq> [] \<and> CHR ''}'' \<notin> set g \<and> (\<exists>rest. r = g @ CHR ''}'' # rest))"
proof
  assume b: "braces_group r = Some g"
  let ?P = "\<lambda>c. c \<noteq> CHR ''}''"
  from b have g: "g = takeWhile ?P r" "g \<noteq> []" and d: "dropWhile ?P r \<noteq> []"
    by (auto simp: braces_group_def split: if_splits)
  from d have "\<not> ?P (hd (dropWhile ?P r))" by (rule hd_dropWhile)
  with d obtain rest where "dropWhile ?P r = CHR ''}'' # rest"
    by (cases "dropWhile ?P r") auto
  then have "r = g @ CHR ''}'' # rest" using g(1) by (metis takeWhile_dropWhile_id)
  moreover have "CHR ''}'' \<notin> set g" using g(1) by (auto dest: set_takeWhileD)
  ultimately show "g \<noteq> [] \<and> CHR ''}'' \<notin> set g \<and> (\<exists>rest. r = g @ CHR ''}'' # rest)"
    using g(2) by blast
next
  assume "g \<noteq> [] \<and> CHR ''}'' \<notin> set g \<and> (\<exists>rest. r = g @ CHR ''}'' # rest)"
  then obtain rest where g: "g \<noteq> []" "CHR ''}'' \<notin> set g" and r: "r = g @ CHR ''}'' # rest" by blast
  have "takeWhile (\<lambda>c. c \<noteq> CHR ''}'') r = g" "dropWhile (\<lambda>c. c \<noteq> CHR ''}'') r = CHR ''}'' # rest"
  proof -
    have a: "\<And>c. c \<in> set g \<Longrightarrow> c \<noteq> CHR ''}''" using g(2) by auto
    show "takeWhile (\<lambda>c. c \<noteq> CHR ''}'') r = g"
      unfolding r by (subst takeWhile_append2) (simp_all add: a)
    show "dropWhile (\<lambda>c. c \<noteq> CHR ''}'') r = CHR ''}'' # rest"
      unfolding r by (subst dropWhile_append2) (simp_all add: a)
  qed
  with g(1) show "braces_group r = Some g" by (simp add: braces_group_def)
qed

lemma takeWhile_maximal:
  "takeWhile P s = ds \<longleftrightarrow>
     (\<exists>rest. s = ds @ rest \<and> (\<forall>x\<in>set ds. P x) \<and> (rest = [] \<or> \<not> P (hd rest)))"
proof
  assume t: "takeWhile P s = ds"
  have "s = ds @ dropWhile P s" using t by (metis takeWhile_dropWhile_id)
  moreover have "\<forall>x\<in>set ds. P x" using t by (auto dest: set_takeWhileD)
  moreover have "dropWhile P s = [] \<or> \<not> P (hd (dropWhile P s))"
    using hd_dropWhile [of P s] by blast
  ultimately show "\<exists>rest. s = ds @ rest \<and> (\<forall>x\<in>set ds. P x) \<and> (rest = [] \<or> \<not> P (hd rest))"
    by blast
next
  assume "\<exists>rest. s = ds @ rest \<and> (\<forall>x\<in>set ds. P x) \<and> (rest = [] \<or> \<not> P (hd rest))"
  then obtain rest where s: "s = ds @ rest" and ds: "\<forall>x\<in>set ds. P x"
    and rest: "rest = [] \<or> \<not> P (hd rest)" by blast
  have "takeWhile P rest = []" using rest by (cases rest) auto
  with ds show "takeWhile P s = ds" by (simp add: s takeWhile_append2)
qed

lemma lower_chars_codes: "map char_of [97..<123::nat] = lower_chars"
  unfolding lower_chars_def by code_simp

lemma lower_AI_codes: "map char_of [97..<106::nat] = take 9 lower_chars"
  unfolding lower_chars_def by code_simp

lemma ci_AZ_iff: "ci_AZ c \<longleftrightarrow> c \<in> set upper_chars \<union> set lower_chars"
proof -
  have "(97 \<le> code c \<and> code c \<le> 122) \<longleftrightarrow> c \<in> set lower_chars"
  proof
    assume "97 \<le> code c \<and> code c \<le> 122"
    then have "97 \<le> code c" "code c < 123" by simp_all
    from char_in_range [OF this] show "c \<in> set lower_chars" unfolding lower_chars_codes .
  next
    assume "c \<in> set lower_chars"
    then show "97 \<le> code c \<and> code c \<le> 122" by (auto simp: lower_chars_def code_def)
  qed
  then show ?thesis by (simp add: ci_AZ_def is_upper_AZ_iff)
qed

lemma ci_AI_iff: "ci_AI c \<longleftrightarrow> c \<in> set option_letters \<union> set (take 9 lower_chars)"
proof -
  have "(97 \<le> code c \<and> code c \<le> 105) \<longleftrightarrow> c \<in> set (take 9 lower_chars)"
  proof
    assume "97 \<le> code c \<and> code c \<le> 105"
    then have "97 \<le> code c" "code c < 106" by simp_all
    from char_in_range [OF this] show "c \<in> set (take 9 lower_chars)" unfolding lower_AI_codes .
  next
    assume "c \<in> set (take 9 lower_chars)"
    then show "97 \<le> code c \<and> code c \<le> 105" by (auto simp: lower_chars_def code_def)
  qed
  then show ?thesis by (simp add: ci_AI_def is_upper_AI_iff)
qed

lemma digit_run_iff:
  "takeWhile is_digit s = ds \<and> ds \<noteq> [] \<longleftrightarrow> (\<exists>rest. s = ds @ rest \<and> digit_run ds rest)"
  unfolding takeWhile_maximal digit_run_def
  by (auto simp: is_digit_iff)

lemma digit_run_takeWhile: "s = ds @ r \<Longrightarrow> digit_run ds r \<Longrightarrow> takeWhile is_digit s = ds"
  using digit_run_iff [of s ds] by blast

lemma letters_not_digits: "ci_AZ c \<Longrightarrow> \<not> is_digit c" "ci_AI c \<Longrightarrow> \<not> is_digit c"
  by (auto simp: ci_AZ_def ci_AI_def is_upper_AZ_def is_upper_AI_def is_digit_def)

lemma ci_AI_AZ: "ci_AI c \<Longrightarrow> ci_AZ c"
  by (auto simp: ci_AZ_def ci_AI_def is_upper_AZ_def is_upper_AI_def)

lemma takeWhile_digit_run: "digit_run ds r \<Longrightarrow> takeWhile is_digit (ds @ r) = ds"
  using digit_run_takeWhile [of "ds @ r" ds r] by simp

lemma no_digit_ahead: "rest = [] \<or> hd rest \<notin> set digit_chars \<Longrightarrow> takeWhile is_digit rest = []"
  by (cases rest) (auto simp: is_digit_iff)

lemma option_group_prefixed:
  assumes "ci_AZ c" "digit_run ds r"
  shows "option_group (c # ds @ r) = Some (c # ds)"
  using assms takeWhile_digit_run [OF assms(2)]
  by (simp add: option_group_def digit_run_def)

lemma option_group_digits:
  assumes "digit_run ds r"
  shows "option_group (ds @ r) = Some ds"
proof -
  from assms obtain d ds' where ds: "ds = d # ds'" by (cases ds) (auto simp: digit_run_def)
  with assms have d: "is_digit d" by (simp add: digit_run_def is_digit_iff)
  then have "\<not> ci_AZ d" using letters_not_digits(1) by blast
  moreover have "takeWhile is_digit (d # ds' @ r) = d # ds'"
    using takeWhile_digit_run [OF assms] ds by simp
  ultimately show ?thesis using d by (simp add: option_group_def ds)
qed

lemma option_group_letter:
  assumes "ci_AI c" "rest = [] \<or> hd rest \<notin> set digit_chars"
  shows "option_group (c # rest) = Some [c]"
  using assms letters_not_digits(2) [OF assms(1)] no_digit_ahead [OF assms(2)]
  by (simp add: option_group_def)

lemma option_group_shape_of:
  assumes "option_group s = Some g"
  shows "option_group_shape s g"
proof (cases s)
  case Nil
  with assms show ?thesis by (simp add: option_group_def)
next
  case (Cons c rest)
  consider (p) "ci_AZ c" "takeWhile is_digit rest \<noteq> []" "g = c # takeWhile is_digit rest"
    | (d) "is_digit c" "g = takeWhile is_digit s"
    | (l) "ci_AI c" "takeWhile is_digit rest = []" "g = [c]"
    using assms Cons ci_AI_AZ [of c] by (auto simp: option_group_def split: if_splits)
  then show ?thesis
  proof cases
    case p
    from p(2) digit_run_iff [of rest "takeWhile is_digit rest"]
    obtain r where "rest = takeWhile is_digit rest @ r" "digit_run (takeWhile is_digit rest) r"
      by blast
    then have "\<exists>ds r. rest = ds @ r \<and> digit_run ds r \<and> g = c # ds" using p(3) by blast
    then obtain ds r where "s = c # ds @ r" "digit_run ds r" "g = c # ds" using Cons by auto
    with p(1) show ?thesis unfolding option_group_shape_def ci_AZ_iff by blast
  next
    case d
    then have "takeWhile is_digit s \<noteq> []" using Cons by simp
    with digit_run_iff [of s "takeWhile is_digit s"]
    obtain r where "s = takeWhile is_digit s @ r" "digit_run (takeWhile is_digit s) r" by blast
    then have "\<exists>ds r. s = ds @ r \<and> digit_run ds r \<and> g = ds" using d(2) by blast
    then show ?thesis unfolding option_group_shape_def by blast
  next
    case l
    from l(2) have "rest = [] \<or> hd rest \<notin> set digit_chars"
      by (cases rest) (auto simp: is_digit_iff split: if_splits)
    with l(1,3) Cons show ?thesis unfolding option_group_shape_def ci_AI_iff by blast
  qed
qed

lemma option_group_iff: "option_group s = Some g \<longleftrightarrow> option_group_shape s g"
proof
  assume "option_group s = Some g"
  then show "option_group_shape s g" by (rule option_group_shape_of)
next
  assume "option_group_shape s g"
  then consider
      (p) c ds r where "s = c # ds @ r" "ci_AZ c" "digit_run ds r" "g = c # ds"
    | (d) ds r where "s = ds @ r" "digit_run ds r" "g = ds"
    | (l) c rest where "s = c # rest" "ci_AI c" "rest = [] \<or> hd rest \<notin> set digit_chars" "g = [c]"
    unfolding option_group_shape_def ci_AZ_iff ci_AI_iff by blast
  then show "option_group s = Some g"
  proof cases
    case p
    then show ?thesis by (simp add: option_group_prefixed)
  next
    case d
    then show ?thesis by (simp add: option_group_digits)
  next
    case l
    then show ?thesis by (simp add: option_group_letter)
  qed
qed

lemma letter_group_iff: "letter_group s = Some g \<longleftrightarrow> letter_group_shape s g"
  by (cases s) (auto simp: letter_group_def letter_group_shape_def ci_AI_iff)









subsection \<open>The call loop\<close>

lemma call_ai_api_from_requests:
  "run_requests (call_ai_api_from service attempt remaining) \<le> remaining \<and>
   length (run_sleeps (call_ai_api_from service attempt remaining)) \<le> remaining"
  by (induction remaining arbitrary: attempt) (auto simp: Let_def split: api_outcome.splits)

lemma call_ai_api_from_failed_attempt:
  assumes "\<forall>content. service attempt \<noteq> Status200 content"
  shows "call_ai_api_from service attempt (Suc remaining) =
     (call_ai_api_from service (Suc attempt) remaining)
       \<lparr>run_requests := Suc (run_requests (call_ai_api_from service (Suc attempt) remaining)),
        run_sleeps := wait_time (service attempt) attempt #
                      run_sleeps (call_ai_api_from service (Suc attempt) remaining)\<rparr>"
  using assms by (cases "service attempt") (simp_all add: Let_def)

lemma call_ai_api_from_success:
  "run_success (call_ai_api_from service attempt remaining) \<Longrightarrow>
     \<exists>k. attempt \<le> k \<and> k < attempt + remaining \<and>
         service k = Status200 (run_response (call_ai_api_from service attempt remaining))"
proof (induction remaining arbitrary: attempt)
  case 0
  then show ?case by simp
next
  case (Suc remaining)
  show ?case
  proof (cases "\<exists>content. service attempt = Status200 content")
    case True
    then show ?thesis by (intro exI [of _ attempt]) auto
  next
    case False
    then have eq: "\<forall>content. service attempt \<noteq> Status200 content" by simp
    from Suc.prems have "run_success (call_ai_api_from service (Suc attempt) remaining)"
      by (simp add: call_ai_api_from_failed_attempt [of service attempt remaining, OF eq] del: call_ai_api_from.simps)
    from Suc.IH [OF this] obtain k where
      "Suc attempt \<le> k" "k < Suc attempt + remaining"
      "service k = Status200 (run_response (call_ai_api_from service (Suc attempt) remaining))"
      by blast
    then show ?thesis
      by (intro exI [of _ k]) (simp add: call_ai_api_from_failed_attempt [of service attempt remaining, OF eq] del: call_ai_api_from.simps)
  qed
qed

lemma call_ai_api_from_failure:
  "\<not> run_success (call_ai_api_from service attempt remaining) \<Longrightarrow>
     run_response (call_ai_api_from service attempt remaining) = None \<and>
     run_requests (call_ai_api_from service attempt remaining) = remaining \<and>
     (\<forall>k. attempt \<le> k \<and> k < attempt + remaining \<longrightarrow> (\<forall>content. service k \<noteq> Status200 content))"
proof (induction remaining arbitrary: attempt)
  case 0
  then show ?case by auto
next
  case (Suc remaining)
  have eq: "\<forall>content. service attempt \<noteq> Status200 content"
    using Suc.prems by (cases "service attempt") simp_all
  from Suc.prems have "\<not> run_success (call_ai_api_from service (Suc attempt) remaining)"
    by (simp add: call_ai_api_from_failed_attempt [of service attempt remaining, OF eq] del: call_ai_api_from.simps)
  from Suc.IH [OF this] have ih:
    "run_response (call_ai_api_from service (Suc attempt) remaining) = None"
    "run_requests (call_ai_api_from service (Suc attempt) remaining) = remaining"
    "\<And>k. Suc attempt \<le> k \<Longrightarrow> k < Suc attempt + remaining \<Longrightarrow>
          \<forall>content. service k \<noteq> Status200 content"
    by blast+
  have "\<forall>content. service k \<noteq> Status200 content"
    if "attempt \<le> k" "k < attempt + Suc remaining" for k
  proof (cases "k = attempt")
    case True
    with eq show ?thesis by simp
  next
    case False
    with that show ?thesis by (intro ih(3)) simp_all
  qed
  with ih(1,2) show ?case
    by (simp add: call_ai_api_from_failed_attempt [of service attempt remaining, OF eq] del: call_ai_api_from.simps)
qed

text \<open>
  C8. The call loop of a task makes at most the configured number of requests and then
  ends; when no request is accepted it ends after exactly that number, with no response.
  With the 5 attempts of \<open>process_ai_task\<close> the task ends either accepted, with the answer
  extracted from the non-empty content of a 200 reply to one of its 5 requests, or failed,
  with the caller's rule answer as its answer. A failed task is an ordinary result.
\<close>

theorem escalation_terminates_with_answer_or_fallback:
  "run_requests (call_ai_api service max_retries) \<le> max_retries \<and>
   length (run_sleeps (call_ai_api service max_retries)) \<le> max_retries \<and>
   (\<not> run_success (call_ai_api service max_retries) \<longrightarrow>
      run_requests (call_ai_api service max_retries) = max_retries \<and>
      run_response (call_ai_api service max_retries) = None) \<and>
   res_qid (process_ai_task service task) = task_qid task \<and>
   ((ai_success (process_ai_task service task) \<and>
     (\<exists>k content. k < 5 \<and> service k = Status200 (Some content) \<and> content \<noteq> [] \<and>
        ai_answer (process_ai_task service task) = extract_ai_answer content (task_options task))) \<or>
    (\<not> ai_success (process_ai_task service task) \<and>
     ai_answer (process_ai_task service task) = task_rule_answer task))"
proof -
  have bound: "run_requests (call_ai_api service max_retries) \<le> max_retries \<and>
               length (run_sleeps (call_ai_api service max_retries)) \<le> max_retries"
    by (simp add: call_ai_api_def call_ai_api_from_requests)
  have exhausted: "\<not> run_success (call_ai_api service max_retries) \<longrightarrow>
      run_requests (call_ai_api service max_retries) = max_retries \<and>
      run_response (call_ai_api service max_retries) = None"
    using call_ai_api_from_failure [of service 0 max_retries]
    by (simp add: call_ai_api_def)
  have qid: "res_qid (process_ai_task service task) = task_qid task"
    by (simp add: process_ai_task_def Let_def)
  have ends: "(ai_success (process_ai_task service task) \<and>
     (\<exists>k content. k < 5 \<and> service k = Status200 (Some content) \<and> content \<noteq> [] \<and>
        ai_answer (process_ai_task service task) = extract_ai_answer content (task_options task))) \<or>
    (\<not> ai_success (process_ai_task service task) \<and>
     ai_answer (process_ai_task service task) = task_rule_answer task)"
  proof (cases "run_success (call_ai_api service 5) \<and> \<not> falsy (run_response (call_ai_api service 5))")
    case True
    then obtain content where c: "run_response (call_ai_api service 5) = Some content" "content \<noteq> []"
      by (auto simp: falsy_def)
    from True call_ai_api_from_success [of service 0 5] c obtain k where
      "k < 5" "service k = Status200 (Some content)"
      by (auto simp: call_ai_api_def)
    with True c show ?thesis
      by (auto simp: process_ai_task_def Let_def get_default_def)
  next
    case False
    then show ?thesis
      by (auto simp: process_ai_task_def Let_def)
  qed
  from bound exhausted qid ends show ?thesis by blast
qed

theorem escalation_terminates_with_answer_or_fallback_witness:
  "\<not> run_success (call_ai_api (\<lambda>k. if k = 0 then Status429 else if k = 1 then TimeoutError else StatusOther) 5) \<and>
   run_requests (call_ai_api (\<lambda>k. if k = 0 then Status429 else if k = 1 then TimeoutError else StatusOther) 5) = 5 \<and>
   run_response (call_ai_api (\<lambda>k. if k = 0 then Status429 else if k = 1 then TimeoutError else StatusOther) 5) = None \<and>
   run_sleeps (call_ai_api (\<lambda>k. if k = 0 then Status429 else if k = 1 then TimeoutError else StatusOther) 5)
     = [15, 16, 5, 5, 5] \<and>
   process_ai_task (\<lambda>k. if k = 0 then Status429 else if k = 1 then TimeoutError else StatusOther)
      \<lparr>task_qid = ''q1'', task_question = ''text'', task_options = [''A'', ''B''], task_rule_answer = ''B''\<rparr>
    = \<lparr>res_qid = ''q1'', ai_answer = ''B'', ai_success = False, res_rule_answer = ''B''\<rparr>"
proof -
  let ?service = "\<lambda>k::nat. if k = 0 then Status429 else if k = 1 then TimeoutError else StatusOther"
  let ?task = "\<lparr>task_qid = ''q1'', task_question = ''text'', task_options = [''A'', ''B''],
                task_rule_answer = ''B''\<rparr>"
  have failed: "\<not> run_success (call_ai_api ?service 5)"
    by (simp add: call_ai_api_def Let_def eval_nat_numeral)
  have sleeps: "run_sleeps (call_ai_api ?service 5) = [15, 16, 5, 5, 5]"
    by (simp add: call_ai_api_def Let_def wait_time_def eval_nat_numeral)
  have result: "process_ai_task ?service ?task
      = \<lparr>res_qid = ''q1'', ai_answer = ''B'', ai_success = False, res_rule_answer = ''B''\<rparr>"
    using failed by (simp add: process_ai_task_def Let_def)
  from escalation_terminates_with_answer_or_fallback [of ?service 5 ?task] failed
  have "run_requests (call_ai_api ?service 5) = 5 \<and> run_response (call_ai_api ?service 5) = None"
    by blast
  with failed sleeps result show ?thesis by blast
qed

end
